theory Spec2Isabelle
  imports Complex_Main "HOL-Library.AList"
begin

section \<open>The emptiness predicate of the utilities module\<close>

text \<open>
  JavaScript values as far as \<open>isEmpty\<close> distinguishes them: the result of \<open>typeof\<close>,
  whether the value is a \<open>Date\<close>, whether it has a \<open>Symbol.iterator\<close> method (then the
  items it yields), and otherwise the enumerable properties a \<open>for ... in\<close> loop visits.
\<close>

datatype jsval =
    JUndefined
  | JNull
  | JNumber real
  | JBoolean bool
  | JDate
  | JString string
  | JIterable "jsval list"
  | JObject "(string \<times> jsval) list"
  | JFunction
  | JSymbol
  | JBigInt int

text \<open>The operator \<open>!\<close> on the values that reach the last line of \<open>isEmpty\<close>.\<close>

fun falsy :: "jsval \<Rightarrow> bool" where
  "falsy JUndefined = True"
| "falsy JNull = True"
| "falsy (JNumber x) = (x = 0)"
| "falsy (JBoolean b) = (\<not> b)"
| "falsy (JString s) = (s = [])"
| "falsy (JBigInt i) = (i = 0)"
| "falsy _ = False"

text \<open>
  \<open>isEmpty(object, ignoreFalsyValues)\<close>. The two loops return \<open>false\<close> at the first item
  that is not empty and \<open>true\<close> after the last one: \<open>allEmpty\<close> is that loop.
\<close>

fun isEmpty :: "jsval \<Rightarrow> bool \<Rightarrow> bool"
  and allEmpty :: "jsval list \<Rightarrow> bool \<Rightarrow> bool" where
  "isEmpty JUndefined ignoreFalsyValues = True"
| "isEmpty JNull ignoreFalsyValues = True"
| "isEmpty (JNumber x) ignoreFalsyValues = False"
| "isEmpty (JBoolean b) ignoreFalsyValues = False"
| "isEmpty JDate ignoreFalsyValues = False"
| "isEmpty (JIterable items) ignoreFalsyValues = allEmpty items ignoreFalsyValues"
| "isEmpty (JObject props) ignoreFalsyValues = allEmpty (map snd props) ignoreFalsyValues"
| "isEmpty object ignoreFalsyValues = (if ignoreFalsyValues then falsy object else False)"
| "allEmpty [] ignoreFalsyValues = True"
| "allEmpty (item # items) ignoreFalsyValues =
     (if \<not> isEmpty item ignoreFalsyValues then False else allEmpty items ignoreFalsyValues)"

section \<open>The buffered state hook\<close>

text \<open>
  \<open>useBufferedState(value, delay)\<close> keeps three cells: the React state \<open>state\<close> that the
  component renders from, the buffer \<open>stateBufferRef.current\<close> and the pending timer
  \<open>commitTimeoutRef.current\<close>. A pending timer is \<open>Some r\<close>: it fires once \<open>r\<close> more
  milliseconds have passed. \<open>writes\<close> is instrumentation that the source does not have:
  it counts the calls of \<open>setState\<close>.
\<close>

record 'v BufferedState =
  state :: 'v
  stateBufferRef :: 'v
  commitTimeoutRef :: "nat option"
  writes :: nat

text \<open>
  The argument of \<open>setState\<close> is a value or a function of the buffered value. The
  updaters of the form mutate shared objects while they run, so an updater also takes
  and returns the store \<open>'h\<close> that holds those objects.
\<close>

datatype ('v, 'h) SetStateAction =
    Value 'v
  | Updater "'v \<Rightarrow> 'h \<Rightarrow> 'v \<times> 'h"

definition useBufferedState :: "'v \<Rightarrow> 'v BufferedState" where
  "useBufferedState v =
     \<lparr>state = v, stateBufferRef = v, commitTimeoutRef = None, writes = 0\<rparr>"

text \<open>\<open>commitStateFromBuffer\<close> clears the pending timer and starts a new one.\<close>

definition commitStateFromBuffer :: "nat \<Rightarrow> 'v BufferedState \<Rightarrow> 'v BufferedState" where
  "commitStateFromBuffer delay b = b\<lparr>commitTimeoutRef := Some delay\<rparr>"

definition setState ::
  "nat \<Rightarrow> ('v, 'h) SetStateAction \<Rightarrow> 'v BufferedState \<times> 'h \<Rightarrow> 'v BufferedState \<times> 'h" where
  "setState delay setStateAction w =
     (case w of (b, h) \<Rightarrow>
        (case setStateAction of
           Updater f \<Rightarrow>
             (case f (stateBufferRef b) h of (v, h') \<Rightarrow>
                (commitStateFromBuffer delay (b\<lparr>stateBufferRef := v, writes := Suc (writes b)\<rparr>), h'))
         | Value v \<Rightarrow>
             (commitStateFromBuffer delay (b\<lparr>stateBufferRef := v, writes := Suc (writes b)\<rparr>), h)))"

text \<open>
  \<open>d\<close> milliseconds pass without a call. A timer that is due runs its callback:
  \<open>_setState(stateBufferRef.current)\<close>, then \<open>commitTimeoutRef.current = undefined\<close>.
\<close>

definition elapse :: "nat \<Rightarrow> 'v BufferedState \<times> 'h \<Rightarrow> 'v BufferedState \<times> 'h" where
  "elapse d w =
     (case w of (b, h) \<Rightarrow>
        (case commitTimeoutRef b of
           None \<Rightarrow> (b, h)
         | Some r \<Rightarrow>
             if r \<le> d then (b\<lparr>state := stateBufferRef b, commitTimeoutRef := None\<rparr>, h)
             else (b\<lparr>commitTimeoutRef := Some (r - d)\<rparr>, h)))"

text \<open>
  A burst of writes: before each write of the list, \<open>gap\<close> milliseconds pass since the
  write before it. The result lists every world the run goes through.
\<close>

fun burst ::
  "nat \<Rightarrow> (nat \<times> ('v, 'h) SetStateAction) list \<Rightarrow> 'v BufferedState \<times> 'h
     \<Rightarrow> ('v BufferedState \<times> 'h) list" where
  "burst delay [] w = []"
| "burst delay ((gap, a) # rest) w =
     elapse gap w # setState delay a (elapse gap w) # burst delay rest (setState delay a (elapse gap w))"

text \<open>What one write does to the buffered value and the store, with no timer.\<close>

fun applyAction :: "'v \<times> 'h \<Rightarrow> ('v, 'h) SetStateAction \<Rightarrow> 'v \<times> 'h" where
  "applyAction (v, h) (Value v') = (v', h)"
| "applyAction (v, h) (Updater f) = f v h"

section \<open>The validated form\<close>

subsection \<open>Objects and the store\<close>

text \<open>
  The form's updaters copy the state object (\<open>{ ...prevState }\<close>) and then mutate the
  objects it points to: \<open>field.valid = ...\<close>, \<open>field.yOffset = ...\<close>,
  \<open>delete newState.fields[name]\<close>. The copy is shallow, so the state React renders from
  and the buffered state share these objects. The store keeps them by address: an address
  is an index into \<open>records\<close> (the \<open>ValidatedFieldState\<close> objects) or into \<open>tables\<close>
  (the \<open>ValidatedFormFields\<close> objects), and a new object goes to the end of its list.

  A \<open>ValidatorState\<close> object is never mutated after it is built, so it is a value; its
  \<open>fields\<close> property, here \<open>fieldsRef\<close>, is the address of a table. A table lists its
  properties in insertion order, the order of \<open>Object.keys\<close> and \<open>Object.entries\<close> for
  names that are not array indices. The type of a table allows \<open>undefined\<close> under a name; no operation
  stores it, and a table here has a record under each of its names.

  The closures \<open>validateCallback\<close> and \<open>measureYOffset\<close> read what is outside the form (the
  props of the field, its layout); \<open>'e\<close> is that environment at the time of the call.
  Numbers are reals: \<open>NaN\<close>, the infinities and rounding are left out.
\<close>

type_synonym addr = nat

record 'e ValidatedFieldState =
  valid :: bool
  yOffset :: real
  measureYOffset :: "'e \<Rightarrow> real"
  validateCallback :: "'e \<Rightarrow> bool"

record ValidatorState =
  ready :: bool
  fieldsRef :: addr

datatype effect =
    ConsoleWarn string
  | ConsoleLog string
  | MeasureYOffset string
  | ScrollTo real bool

record 'e Store =
  records :: "'e ValidatedFieldState list"
  tables :: "(string \<times> addr) list list"
  effects :: "effect list"

type_synonym 'e World = "ValidatorState BufferedState \<times> 'e Store"

text \<open>\<open>DEFAULT_VALIDATOR_STATE\<close>; its \<open>fields: {}\<close> is the table at address 0.\<close>

definition DEFAULT_VALIDATOR_STATE :: ValidatorState where
  "DEFAULT_VALIDATOR_STATE = \<lparr>ready = False, fieldsRef = 0\<rparr>"

definition ValidatedForm :: "'e World" where
  "ValidatedForm =
     (useBufferedState DEFAULT_VALIDATOR_STATE, \<lparr>records = [], tables = [[]], effects = []\<rparr>)"

text \<open>\<open>useBufferedState\<close> is called with its default delay of 50 ms.\<close>

definition setValidatorState ::
  "(ValidatorState, 'e Store) SetStateAction \<Rightarrow> 'e World \<Rightarrow> 'e World" where
  "setValidatorState = setState 50"

text \<open>
  \<open>fields[name]\<close> in the table at address \<open>t\<close>, for a name that \<open>Object.keys\<close> or
  \<open>Object.entries\<close> gave: the table's own property. \<open>None\<close> is \<open>undefined\<close>.
\<close>

definition getField :: "'e Store \<Rightarrow> addr \<Rightarrow> string \<Rightarrow> addr option" where
  "getField h t name = map_of (tables h ! t) name"

text \<open>The record that the table at address \<open>t\<close> has under \<open>name\<close>.\<close>

definition getRecord :: "'e Store \<Rightarrow> addr \<Rightarrow> string \<Rightarrow> 'e ValidatedFieldState option" where
  "getRecord h t name = map_option (\<lambda>a. records h ! a) (getField h t name)"

text \<open>
  \<open>fields[name]\<close> for a name that the caller supplies. A table is a plain object, so a
  name that it does not have itself is looked up in \<open>Object.prototype\<close>: there the value
  is a function or, for \<open>__proto__\<close>, the prototype object, which is truthy and has none of
  the properties of a field record.
\<close>

datatype property = Absent | Own addr | Inherited

definition Object_prototype :: "string list" where
  "Object_prototype =
     [''constructor'', ''__proto__'', ''hasOwnProperty'', ''isPrototypeOf'',
      ''propertyIsEnumerable'', ''toLocaleString'', ''toString'', ''valueOf'',
      ''__defineGetter__'', ''__defineSetter__'', ''__lookupGetter__'', ''__lookupSetter__'']"

definition getProperty :: "'e Store \<Rightarrow> addr \<Rightarrow> string \<Rightarrow> property" where
  "getProperty h t name =
     (case getField h t name of
        Some a \<Rightarrow> Own a
      | None \<Rightarrow> if name \<in> set Object_prototype then Inherited else Absent)"

text \<open>What a call can throw, and the world after a call that may have thrown.\<close>

datatype error = TypeError

definition caught :: "'w \<Rightarrow> error + 'w \<Rightarrow> 'w" where
  "caught w r = (case r of Inl err \<Rightarrow> w | Inr w' \<Rightarrow> w')"

text \<open>Every address in the store points to an object.\<close>

definition wf_world :: "'e World \<Rightarrow> bool" where
  "wf_world w =
     (case w of (b, h) \<Rightarrow>
        fieldsRef (state b) < length (tables h) \<and>
        fieldsRef (stateBufferRef b) < length (tables h) \<and>
        list_all (list_all (\<lambda>(name, a). a < length (records h))) (tables h))"

subsection \<open>The operations of the form context\<close>

text \<open>The effect that runs once after the first render.\<close>

definition readyEffect :: "'e World \<Rightarrow> 'e World" where
  "readyEffect w =
     setValidatorState (Updater (\<lambda>prevState h. (prevState\<lparr>ready := True\<rparr>, h))) w"

text \<open>
  Where an updater finds an inherited property under the name, its assignment goes to an
  object of \<open>Object.prototype\<close>, which is not in the store.
\<close>

definition updateFieldOffsetY :: "string \<Rightarrow> real \<Rightarrow> 'e World \<Rightarrow> 'e World" where
  "updateFieldOffsetY name y w =
     setValidatorState (Updater (\<lambda>prevState h.
        (case getProperty h (fieldsRef prevState) name of
           Absent \<Rightarrow> (prevState, h)
         | Own a \<Rightarrow>
             (prevState, h\<lparr>records := (records h)[a := (records h ! a)\<lparr>yOffset := y\<rparr>]\<rparr>)
         | Inherited \<Rightarrow> (prevState, h)))) w"

text \<open>
  \<open>addField\<close> looks the name up in \<open>validatorState.fields\<close>, the state of the last
  render. Its updater builds the new record and a new table
  \<open>{ ...prevState.fields, [name]: newField }\<close> from the buffered state.
\<close>

definition addField ::
  "string \<Rightarrow> bool \<Rightarrow> ('e \<Rightarrow> bool) \<Rightarrow> ('e \<Rightarrow> real) \<Rightarrow> 'e World \<Rightarrow> 'e World" where
  "addField name isValid validateCb measureCb w =
     (case w of (b, h) \<Rightarrow>
        (if getProperty h (fieldsRef (state b)) name \<noteq> Absent
         then
             (b, h\<lparr>effects := effects h @
                [ConsoleWarn (''Found two or more fields with name '' @ name @
                   ''. This will cause unexpected behavior when validating form.'')]\<rparr>)
         else
             setValidatorState (Updater (\<lambda>prevState h.
                (prevState\<lparr>fieldsRef := length (tables h)\<rparr>,
                 h\<lparr>records := records h @
                      [\<lparr>valid = isValid, yOffset = 0,
                        measureYOffset = measureCb, validateCallback = validateCb\<rparr>],
                   tables := tables h @
                      [AList.update name (length (records h)) (tables h ! fieldsRef prevState)]\<rparr>))) w))"

definition removeField :: "string \<Rightarrow> 'e World \<Rightarrow> 'e World" where
  "removeField name w =
     setValidatorState (Updater (\<lambda>prevState h.
        (prevState,
         h\<lparr>tables := (tables h)[fieldsRef prevState :=
              AList.delete name (tables h ! fieldsRef prevState)]\<rparr>))) w"

text \<open>
  \<open>validateField\<close> takes \<open>field\<close> from \<open>validatorState.fields\<close>; the updater calls the
  callback of that object again and writes to \<open>newState.fields[name]\<close>, the record the
  buffered state has under the name. An inherited \<open>field\<close> is truthy and has no
  \<open>validateCallback\<close>: the call of it throws before anything is logged or written.
\<close>

definition validateField :: "string \<Rightarrow> 'e \<Rightarrow> 'e World \<Rightarrow> error + 'e World" where
  "validateField name e w =
     (case w of (b, h) \<Rightarrow>
        (case getProperty h (fieldsRef (state b)) name of
           Absent \<Rightarrow>
             Inr (b, h\<lparr>effects := effects h @ [ConsoleLog ''Trying to validate non-existing field!'']\<rparr>)
         | Inherited \<Rightarrow> Inl TypeError
         | Own a \<Rightarrow>
             if valid (records h ! a) = validateCallback (records h ! a) e then Inr w
             else
               Inr (setValidatorState (Updater (\<lambda>prevState h.
                  (let isValid = validateCallback (records h ! a) e in
                   case getProperty h (fieldsRef prevState) name of
                     Absent \<Rightarrow> (prevState, h)
                   | Own target \<Rightarrow>
                       (prevState,
                        h\<lparr>records := (records h)[target := (records h ! target)\<lparr>valid := isValid\<rparr>]\<rparr>)
                   | Inherited \<Rightarrow> (prevState, h)))) w)))"

text \<open>
  \<open>measureYOffsets\<close> calls \<open>measureYOffset()\<close> of every field and returns; each promise
  resolves later, and its continuation is then a call of \<open>updateFieldOffsetY\<close>.
\<close>

definition measureYOffsets :: "'e World \<Rightarrow> 'e World" where
  "measureYOffsets w =
     (case w of (b, h) \<Rightarrow>
        (b, h\<lparr>effects := effects h @
               map (\<lambda>(name, a). MeasureYOffset name) (tables h ! fieldsRef (state b))\<rparr>))"

text \<open>
  One round of the loop of \<open>validateForm\<close>. For a name without a record \<open>isValid\<close> is
  \<open>undefined\<close>: the form is invalid and nothing is written.
\<close>

definition validateForm_each :: "'e \<Rightarrow> addr \<Rightarrow> bool \<times> 'e Store \<Rightarrow> string \<Rightarrow> bool \<times> 'e Store" where
  "validateForm_each e t acc fieldName =
     (case acc of (isFormValid, h) \<Rightarrow>
        (case getField h t fieldName of
           None \<Rightarrow> (False, h)
         | Some a \<Rightarrow>
             (let field = records h ! a; isValid = validateCallback field e in
                (if \<not> isValid then False else isFormValid,
                 if isValid = valid field then h
                 else h\<lparr>records := (records h)[a := field\<lparr>valid := isValid\<rparr>]\<rparr>))))"

definition validateForm :: "'e \<Rightarrow> 'e World \<Rightarrow> bool \<times> 'e World" where
  "validateForm e w =
     (case w of (b, h) \<Rightarrow>
        if \<not> ready (state b) then (False, w)
        else
          (case measureYOffsets w of (b1, h1) \<Rightarrow>
             (let newState = state b1 in
                (case foldl (validateForm_each e (fieldsRef newState)) (True, h1)
                        (map fst (tables h1 ! fieldsRef newState)) of
                   (isFormValid, h2) \<Rightarrow>
                     (isFormValid,
                      setValidatorState (Updater (\<lambda>prevState h. (newState, h))) (b1, h2))))))"

definition resetValidations_each :: "addr \<Rightarrow> 'e Store \<Rightarrow> string \<Rightarrow> 'e Store" where
  "resetValidations_each t h fieldName =
     (case getField h t fieldName of
        None \<Rightarrow> h
      | Some a \<Rightarrow> h\<lparr>records := (records h)[a := (records h ! a)\<lparr>valid := True\<rparr>]\<rparr>)"

definition resetValidations :: "'e World \<Rightarrow> 'e World" where
  "resetValidations w =
     setValidatorState (Updater (\<lambda>prevState h.
        (prevState,
         foldl (resetValidations_each (fieldsRef prevState)) h
           (map fst (tables h ! fieldsRef prevState))))) w"

subsection \<open>Scrolling to the first invalid field\<close>

text \<open>
  One round of the loop of \<open>scrollToInvalidFields\<close> over \<open>Object.entries(state.fields)\<close>;
  the accumulator is \<open>shouldScroll\<close> and \<open>shouldScrollToOffset\<close>, \<open>None\<close> while the latter
  is not a number.
\<close>

definition scrollToInvalidFields_each ::
  "'e Store \<Rightarrow> bool \<times> real option \<Rightarrow> string \<times> addr \<Rightarrow> bool \<times> real option" where
  "scrollToInvalidFields_each h acc entry =
     (case acc of (shouldScroll, shouldScrollToOffset) \<Rightarrow>
        (let field = records h ! snd entry in
           if \<not> valid field then
             (True,
              case shouldScrollToOffset of
                None \<Rightarrow> Some (yOffset field)
              | Some off \<Rightarrow> if yOffset field < off then Some (yOffset field) else Some off)
           else (shouldScroll, shouldScrollToOffset)))"

text \<open>
  \<open>scrollableNode\<close> is what \<open>getScrollableNode\<close> returned, \<open>None\<close> when it is \<open>null\<close> or
  \<open>undefined\<close>; \<open>extraScrollHeight\<close> is \<open>_internal_extraScrollHeight\<close>. The call of the
  utility \<open>scrollTo(scrollableNode, {y, animated: true})\<close> is the effect \<open>ScrollTo y True\<close>.
\<close>

definition scrollToInvalidFields :: "'n option \<Rightarrow> real \<Rightarrow> 'e World \<Rightarrow> 'e World" where
  "scrollToInvalidFields scrollableNode extraScrollHeight w =
     (case w of (b, h) \<Rightarrow>
        (case scrollableNode of
           None \<Rightarrow> w
         | Some node \<Rightarrow>
             (case foldl (scrollToInvalidFields_each h) (False, None) (tables h ! fieldsRef (state b)) of
                (shouldScroll, Some off) \<Rightarrow>
                  if shouldScroll
                  then (b, h\<lparr>effects := effects h @ [ScrollTo (max (off - extraScrollHeight) 0) True]\<rparr>)
                  else w
              | (shouldScroll, None) \<Rightarrow> w)))"

subsection \<open>Runs of the form\<close>

text \<open>
  What can happen to a mounted form: its operations are called, and time passes. A call
  that throws leaves the world as it was.
\<close>

datatype 'e event =
    ReadyEffect
  | AddField string bool "'e \<Rightarrow> bool" "'e \<Rightarrow> real"
  | RemoveField string
  | UpdateFieldOffsetY string real
  | ValidateField string 'e
  | ValidateForm 'e
  | ResetValidations
  | Elapse nat

fun step :: "'e World \<Rightarrow> 'e event \<Rightarrow> 'e World" where
  "step w ReadyEffect = readyEffect w"
| "step w (AddField name isValid validateCb measureCb) = addField name isValid validateCb measureCb w"
| "step w (RemoveField name) = removeField name w"
| "step w (UpdateFieldOffsetY name y) = updateFieldOffsetY name y w"
| "step w (ValidateField name e) = caught w (validateField name e w)"
| "step w (ValidateForm e) = snd (validateForm e w)"
| "step w ResetValidations = resetValidations w"
| "step w (Elapse d) = elapse d w"

definition run :: "'e event list \<Rightarrow> 'e World \<Rightarrow> 'e World" where
  "run evs w = foldl step w evs"

text \<open>
  What holds of the hook's cells throughout a run: \<open>ready\<close> is in the buffered state
  whenever it is in the rendered state, and while no timer is pending the two states are
  the same.
\<close>

definition cell_inv :: "'e World \<Rightarrow> bool" where
  "cell_inv w =
     ((ready (state (fst w)) \<longrightarrow> ready (stateBufferRef (fst w))) \<and>
      (commitTimeoutRef (fst w) = None \<longrightarrow> state (fst w) = stateBufferRef (fst w)))"

text \<open>
  What holds of the two tables throughout a run: a name of the rendered state is, in the
  buffered state, either bound to the same record or removed.
\<close>

definition shares :: "'e World \<Rightarrow> bool" where
  "shares w =
     (case w of (b, h) \<Rightarrow>
        \<forall>name a. getField h (fieldsRef (state b)) name = Some a \<longrightarrow>
          getField h (fieldsRef (stateBufferRef b)) name = Some a \<or>
          getField h (fieldsRef (stateBufferRef b)) name = None)"

text \<open>
  A form for the examples. Two fields register during the first render, the ready effect
  runs, and 50 ms pass without a write, so that the buffered state is committed. The
  environment is a number: \<open>name\<close> is valid when it is positive, \<open>email\<close> when it is
  below 10.
\<close>

definition exampleForm :: "nat World" where
  "exampleForm =
     run [AddField ''name'' True (\<lambda>e. 0 < e) (\<lambda>e. 0),
          AddField ''email'' True (\<lambda>e. e < 10) (\<lambda>e. 0),
          ReadyEffect, Elapse 50] ValidatedForm"

text \<open>
  The first form after a third field has registered and \<open>email\<close> has unmounted, before
  the next commit: the rendered state still has \<open>email\<close>, the buffered state does not.
\<close>

definition examplePendingForm :: "nat World" where
  "examplePendingForm =
     run [AddField ''phone'' True (\<lambda>e. True) (\<lambda>e. 0), RemoveField ''email''] exampleForm"

text \<open>
  A second form: \<open>a\<close> is invalid at offset 300, \<open>b\<close> is invalid at offset 100 and \<open>c\<close>
  is valid at offset 50.
\<close>

definition exampleInvalidForm :: "nat World" where
  "exampleInvalidForm =
     run [AddField ''a'' False (\<lambda>e. False) (\<lambda>e. 300),
          AddField ''b'' False (\<lambda>e. False) (\<lambda>e. 100),
          AddField ''c'' True (\<lambda>e. True) (\<lambda>e. 50),
          UpdateFieldOffsetY ''a'' 300, UpdateFieldOffsetY ''b'' 100, UpdateFieldOffsetY ''c'' 50,
          ReadyEffect, Elapse 50] ValidatedForm"

section \<open>Properties of the emptiness predicate\<close>

text \<open>
  C9, as the code has it: \<open>null\<close>, \<open>undefined\<close> and a collection without items or
  properties are empty whatever the flag is; a string is empty exactly when it is the
  empty string and \<open>ignoreFalsyValues\<close> is set, so the flag decides for the empty string
  and a string such as \<open>"0"\<close> is never empty.
\<close>

theorem isEmpty_classification:
  "isEmpty JUndefined f \<and> isEmpty JNull f \<and> isEmpty (JIterable []) f \<and> isEmpty (JObject []) f
   \<and> isEmpty (JString s) f = (f \<and> s = [])"
  by simp

text \<open>
  C9 as the specification states it fails: with the default flag the empty string is not
  empty, and the flag makes no difference for the string \<open>"0"\<close>.
\<close>

theorem isEmpty_empty_string_counterexample:
  "\<not> isEmpty (JString '''') False \<and>
   isEmpty (JString ''0'') True = isEmpty (JString ''0'') False"
  by simp

section \<open>Properties of the buffered state hook\<close>

lemma elapse_early:
  "commitTimeoutRef b = Some r \<Longrightarrow> d < r \<Longrightarrow> elapse d (b, h) = (b\<lparr>commitTimeoutRef := Some (r - d)\<rparr>, h)"
  by (simp add: elapse_def)

lemma elapse_due:
  "commitTimeoutRef b = Some r \<Longrightarrow> r \<le> d \<Longrightarrow>
   elapse d (b, h) = (b\<lparr>state := stateBufferRef b, commitTimeoutRef := None\<rparr>, h)"
  by (simp add: elapse_def)

text \<open>Time passes the same way in one piece or in two.\<close>

lemma elapse_add: "elapse (d1 + d2) w = elapse d2 (elapse d1 w)"
  by (cases w) (auto simp add: elapse_def split: option.splits)

lemma setState_cells:
  "state (fst (setState delay a w)) = state (fst w)"
  "commitTimeoutRef (fst (setState delay a w)) = Some delay"
  "writes (fst (setState delay a w)) = Suc (writes (fst w))"
  "(stateBufferRef (fst (setState delay a w)), snd (setState delay a w)) = applyAction (stateBufferRef (fst w), snd w) a"
  by (cases w; cases a; simp add: setState_def commitStateFromBuffer_def split: prod.splits)+

lemma burst_keeps_state:
  assumes "\<forall>(gap, a) \<in> set rest. gap < delay" and "commitTimeoutRef (fst w) = Some delay"
  shows "\<forall>w' \<in> set (burst delay rest w). state (fst w') = state (fst w)"
  using assms
proof (induction rest arbitrary: w)
  case Nil
  then show ?case by simp
next
  case (Cons x rest)
  obtain gap a where x: "x = (gap, a)" by (cases x)
  obtain b h where w: "w = (b, h)" by (cases w)
  from Cons.prems x have gap: "gap < delay" by simp
  from Cons.prems w have t: "commitTimeoutRef b = Some delay" by simp
  let ?w1 = "elapse gap w"
  let ?w2 = "setState delay a ?w1"
  have s1: "state (fst ?w1) = state (fst w)"
    by (simp add: elapse_early [OF t gap] w)
  have s2: "state (fst ?w2) = state (fst w)"
    using s1 by (simp add: setState_cells)
  have "\<forall>w' \<in> set (burst delay rest ?w2). state (fst w') = state (fst ?w2)"
    using Cons.IH [of ?w2] Cons.prems by (simp add: setState_cells)
  with s1 s2 show ?case by (simp add: x)
qed

lemma burst_last:
  assumes "\<forall>(gap, a) \<in> set rest. gap < delay" and "commitTimeoutRef (fst w) = Some delay"
  shows "commitTimeoutRef (fst (last (w # burst delay rest w))) = Some delay \<and>
         (stateBufferRef (fst (last (w # burst delay rest w))), snd (last (w # burst delay rest w)))
           = foldl applyAction (stateBufferRef (fst w), snd w) (map snd rest)"
  using assms
proof (induction rest arbitrary: w)
  case Nil
  then show ?case by simp
next
  case (Cons x rest)
  obtain gap a where x: "x = (gap, a)" by (cases x)
  obtain b h where w: "w = (b, h)" by (cases w)
  from Cons.prems x have gap: "gap < delay" by simp
  from Cons.prems w have t: "commitTimeoutRef b = Some delay" by simp
  let ?w1 = "elapse gap w"
  let ?w2 = "setState delay a ?w1"
  have e: "?w1 = (b\<lparr>commitTimeoutRef := Some (delay - gap)\<rparr>, h)"
    by (simp add: elapse_early [OF t gap] w)
  have step: "(stateBufferRef (fst ?w2), snd ?w2) = applyAction (stateBufferRef (fst w), snd w) a"
    unfolding setState_cells(4) e by (simp add: w)
  have ih: "commitTimeoutRef (fst (last (?w2 # burst delay rest ?w2))) = Some delay \<and>
         (stateBufferRef (fst (last (?w2 # burst delay rest ?w2))), snd (last (?w2 # burst delay rest ?w2)))
           = foldl applyAction (stateBufferRef (fst ?w2), snd ?w2) (map snd rest)"
    using Cons.IH [of ?w2] Cons.prems by (simp add: setState_cells)
  have l: "last (w # burst delay (x # rest) w) = last (?w2 # burst delay rest ?w2)"
    by (simp add: x)
  show ?case unfolding l using ih step by (simp add: x)
qed

text \<open>
  C4: a burst of writes, each less than \<open>delay\<close> after the one before it, leaves the
  observable \<open>state\<close> as it was in every world of the run; once \<open>delay\<close> has passed after
  the last write, \<open>state\<close> is the fold of the writes over the value that was buffered when
  the burst began.
\<close>

theorem burst_commits_only_final:
  assumes "\<forall>(gap, a) \<in> set rest. gap < delay" and "delay \<le> d"
  shows "(\<forall>w' \<in> set (setState delay a1 w # burst delay rest (setState delay a1 w)).
            state (fst w') = state (fst w)) \<and>
         state (fst (elapse d (last (setState delay a1 w # burst delay rest (setState delay a1 w)))))
           = fst (foldl applyAction (stateBufferRef (fst w), snd w) (a1 # map snd rest))"
proof -
  let ?w1 = "setState delay a1 w"
  have t: "commitTimeoutRef (fst ?w1) = Some delay" by (simp add: setState_cells)
  have k: "\<forall>w' \<in> set (burst delay rest ?w1). state (fst w') = state (fst ?w1)"
    using burst_keeps_state [OF assms(1) t] .
  let ?l = "last (?w1 # burst delay rest ?w1)"
  have bl: "commitTimeoutRef (fst ?l) = Some delay"
           "(stateBufferRef (fst ?l), snd ?l) = foldl applyAction (stateBufferRef (fst ?w1), snd ?w1) (map snd rest)"
    using burst_last [OF assms(1) t] by blast+
  obtain b h where l: "?l = (b, h)" by (cases ?l)
  have "state (fst (elapse d ?l)) = stateBufferRef (fst ?l)"
    using bl(1) assms(2) unfolding l by (simp add: elapse_due [of b delay d h])
  also have "\<dots> = fst (foldl applyAction (stateBufferRef (fst ?w1), snd ?w1) (map snd rest))"
    using bl(2) by (metis fst_conv)
  also have "\<dots> = fst (foldl applyAction (stateBufferRef (fst w), snd w) (a1 # map snd rest))"
    by (simp add: setState_cells(4))
  finally have fin: "state (fst (elapse d ?l)) = fst (foldl applyAction (stateBufferRef (fst w), snd w) (a1 # map snd rest))" .
  from k fin show ?thesis by (simp add: setState_cells(1))
qed

theorem burst_witness:
  "list_all (\<lambda>(gap, a). gap < (50::nat)) [(10, Updater (\<lambda>v h. (v + 1, h))), (49, Value 7)] \<and>
   list_all (\<lambda>w'. state (fst w') = 0)
     (setState 50 (Value 1) (useBufferedState (0::nat), ()) #
        burst 50 [(10, Updater (\<lambda>v h. (v + 1, h))), (49, Value 7)]
          (setState 50 (Value 1) (useBufferedState (0::nat), ()))) \<and>
   state (fst (elapse 50 (last (setState 50 (Value 1) (useBufferedState (0::nat), ()) #
         burst 50 [(10, Updater (\<lambda>v h. (v + 1, h))), (49, Value 7)]
           (setState 50 (Value 1) (useBufferedState (0::nat), ()))))))
     = 7"
  using burst_commits_only_final
    [of "[(10, Updater (\<lambda>v h. (v + 1, h))), (49, Value 7)]" 50 50 "Value 1"
        "(useBufferedState (0::nat), ())"]
  by (simp add: useBufferedState_def list_all_iff)

section \<open>Properties of the validated form\<close>

subsection \<open>Reading the store\<close>

lemmas form_defs = run_def ValidatedForm_def useBufferedState_def DEFAULT_VALIDATOR_STATE_def
  readyEffect_def addField_def removeField_def updateFieldOffsetY_def validateField_def
  validateForm_def validateForm_each_def measureYOffsets_def resetValidations_def
  resetValidations_each_def setValidatorState_def setState_def commitStateFromBuffer_def
  elapse_def getField_def getRecord_def getProperty_def Object_prototype_def caught_def Let_def

lemma exampleForm_eq:
  "exampleForm =
     (\<lparr>state = \<lparr>ready = True, fieldsRef = 2\<rparr>, stateBufferRef = \<lparr>ready = True, fieldsRef = 2\<rparr>,
       commitTimeoutRef = None, writes = 3\<rparr>,
      \<lparr>records = [\<lparr>valid = True, yOffset = 0, measureYOffset = \<lambda>e. 0, validateCallback = \<lambda>e. 0 < e\<rparr>,
                  \<lparr>valid = True, yOffset = 0, measureYOffset = \<lambda>e. 0, validateCallback = \<lambda>e. e < 10\<rparr>],
       tables = [[], [(''name'', 0)], [(''name'', 0), (''email'', 1)]],
       effects = []\<rparr>)"
  by (simp add: exampleForm_def form_defs numeral_2_eq_2 numeral_3_eq_3)

lemma nth_list_update_total:
  "(xs[a := x]) ! a' = (if a' = a \<and> a < length xs then x else xs ! a')"
proof (cases "a' = a \<and> a < length xs")
  case True
  then show ?thesis by simp
next
  case False
  then have "(xs[a := x]) ! a' = xs ! a'"
    by (cases "a' = a") (simp_all add: list_update_beyond)
  with False show ?thesis by auto
qed

lemma nth_update_valid:
  "validateCallback ((xs[a := (xs ! a)\<lparr>valid := v\<rparr>]) ! a') = validateCallback (xs ! a')"
  "measureYOffset ((xs[a := (xs ! a)\<lparr>valid := v\<rparr>]) ! a') = measureYOffset (xs ! a')"
  "yOffset ((xs[a := (xs ! a)\<lparr>valid := v\<rparr>]) ! a') = yOffset (xs ! a')"
  by (simp_all add: nth_list_update_total)

lemma getField_tables: "tables h' = tables h \<Longrightarrow> getField h' t name = getField h t name"
  by (simp add: getField_def)

lemma getField_keys:
  "(\<exists>a. getField h t k = Some a) = (k \<in> set (map fst (tables h ! t)))"
proof -
  have "(getField h t k = None) = (k \<notin> fst ` set (tables h ! t))"
    by (simp add: getField_def map_of_eq_None_iff)
  then show ?thesis by auto
qed

lemma setValidatorState_Updater:
  "setValidatorState (Updater f) (b, h) =
     (b\<lparr>stateBufferRef := fst (f (stateBufferRef b) h), commitTimeoutRef := Some 50,
        writes := Suc (writes b)\<rparr>, snd (f (stateBufferRef b) h))"
  by (simp add: setValidatorState_def setState_def commitStateFromBuffer_def split: prod.splits)

subsection \<open>Validating the whole form\<close>

lemma validateForm_each_frame:
  "tables (snd (validateForm_each e t (ok, h) k)) = tables h"
  "effects (snd (validateForm_each e t (ok, h) k)) = effects h"
  "validateCallback (records (snd (validateForm_each e t (ok, h) k)) ! a) = validateCallback (records h ! a)"
  by (simp_all add: validateForm_each_def Let_def nth_update_valid split: option.splits)

lemma validateForm_each_result:
  "fst (validateForm_each e t (ok, h) k) =
     (ok \<and> (\<exists>a. getField h t k = Some a \<and> validateCallback (records h ! a) e))"
  by (auto simp add: validateForm_each_def Let_def split: option.splits)

lemma validateForm_loop:
  "fst (foldl (validateForm_each e t) (ok, h) ks) =
     (ok \<and> (\<forall>k \<in> set ks. \<exists>a. getField h t k = Some a \<and> validateCallback (records h ! a) e)) \<and>
   tables (snd (foldl (validateForm_each e t) (ok, h) ks)) = tables h \<and>
   effects (snd (foldl (validateForm_each e t) (ok, h) ks)) = effects h"
proof (induction ks arbitrary: ok h)
  case Nil
  then show ?case by simp
next
  case (Cons k ks)
  let ?P = "\<lambda>h k. \<exists>a. getField h t k = Some a \<and> validateCallback (records h ! a) e"
  obtain ok1 h1 where s: "validateForm_each e t (ok, h) k = (ok1, h1)"
    by (cases "validateForm_each e t (ok, h) k")
  have ok1: "ok1 = (ok \<and> ?P h k)"
    using validateForm_each_result [of e t ok h k] s by simp
  have fr: "tables h1 = tables h" "effects h1 = effects h"
    "\<And>a. validateCallback (records h1 ! a) = validateCallback (records h ! a)"
    using validateForm_each_frame [of e t ok h k] s by simp_all
  have same: "?P h1 k' = ?P h k'" for k'
    by (simp add: fr getField_tables [OF fr(1)])
  have ih: "fst (foldl (validateForm_each e t) (ok1, h1) ks) = (ok1 \<and> (\<forall>k \<in> set ks. ?P h1 k))"
    "tables (snd (foldl (validateForm_each e t) (ok1, h1) ks)) = tables h1"
    "effects (snd (foldl (validateForm_each e t) (ok1, h1) ks)) = effects h1"
    using Cons.IH [of ok1 h1] by blast+
  have f: "foldl (validateForm_each e t) (ok, h) (k # ks) = foldl (validateForm_each e t) (ok1, h1) ks"
    by (simp add: s)
  have "fst (foldl (validateForm_each e t) (ok, h) (k # ks)) = (ok1 \<and> (\<forall>k' \<in> set ks. ?P h1 k'))"
    using f ih(1) by simp
  also have "\<dots> = (ok1 \<and> (\<forall>k' \<in> set ks. ?P h k'))"
    by (simp only: same)
  also have "\<dots> = (ok \<and> (\<forall>k' \<in> set (k # ks). ?P h k'))"
    by (simp add: ok1)
  finally have r: "fst (foldl (validateForm_each e t) (ok, h) (k # ks)) = (ok \<and> (\<forall>k' \<in> set (k # ks). ?P h k'))" .
  have t: "tables (snd (foldl (validateForm_each e t) (ok, h) (k # ks))) = tables h"
    using f ih(2) fr(1) by simp
  have ef: "effects (snd (foldl (validateForm_each e t) (ok, h) (k # ks))) = effects h"
    using f ih(3) fr(2) by simp
  from r t ef show ?case by blast
qed

lemma measureYOffsets_frame:
  "fst (measureYOffsets (b, h)) = b"
  "tables (snd (measureYOffsets (b, h))) = tables h"
  "records (snd (measureYOffsets (b, h))) = records h"
  by (simp_all add: measureYOffsets_def)

text \<open>
  C7: while \<open>ready\<close> is false in the state of the last render, \<open>validateForm\<close> returns
  \<open>false\<close>, whatever the fields are and whatever their callbacks would return; it calls
  nothing and writes nothing.
\<close>

theorem validateForm_not_ready:
  "\<not> ready (state b) \<Longrightarrow> validateForm e (b, h) = (False, (b, h))"
  by (simp add: validateForm_def)

theorem validateForm_not_ready_witness:
  "\<not> ready (state (fst (ValidatedForm :: unit World))) \<and>
   validateForm () (ValidatedForm :: unit World) = (False, ValidatedForm)"
  using validateForm_not_ready [of "fst (ValidatedForm :: unit World)" "()" "snd (ValidatedForm :: unit World)"]
  by (simp add: ValidatedForm_def useBufferedState_def DEFAULT_VALIDATOR_STATE_def)



lemma validateForm_each_records:
  "length (records (snd (validateForm_each e t (ok, h) k))) = length (records h)"
  "yOffset (records (snd (validateForm_each e t (ok, h) k)) ! a) = yOffset (records h ! a)"
  "measureYOffset (records (snd (validateForm_each e t (ok, h) k)) ! a) = measureYOffset (records h ! a)"
  by (simp_all add: validateForm_each_def Let_def nth_update_valid split: option.splits)

lemma validateForm_loop_records:
  "length (records (snd (foldl (validateForm_each e t) (ok, h) ks))) = length (records h) \<and>
   yOffset (records (snd (foldl (validateForm_each e t) (ok, h) ks)) ! a) = yOffset (records h ! a) \<and>
   measureYOffset (records (snd (foldl (validateForm_each e t) (ok, h) ks)) ! a) = measureYOffset (records h ! a) \<and>
   validateCallback (records (snd (foldl (validateForm_each e t) (ok, h) ks)) ! a) = validateCallback (records h ! a)"
proof (induction ks arbitrary: ok h)
  case Nil
  then show ?case by simp
next
  case (Cons k ks)
  obtain ok1 h1 where s: "validateForm_each e t (ok, h) k = (ok1, h1)"
    by (cases "validateForm_each e t (ok, h) k")
  have h1: "length (records h1) = length (records h)" "yOffset (records h1 ! a) = yOffset (records h ! a)"
    "measureYOffset (records h1 ! a) = measureYOffset (records h ! a)"
    "validateCallback (records h1 ! a) = validateCallback (records h ! a)"
    using validateForm_each_records [of e t ok h k] validateForm_each_frame(3) [of e t ok h k] s
    by simp_all
  show ?case using Cons.IH [of ok1 h1] by (simp add: s h1)
qed

lemma validateForm_ready_eq:
  assumes "ready (state b)"
  shows "validateForm e (b, h) =
     (fst (foldl (validateForm_each e (fieldsRef (state b))) (True, snd (measureYOffsets (b, h)))
             (map fst (tables h ! fieldsRef (state b)))),
      b\<lparr>stateBufferRef := state b, commitTimeoutRef := Some 50, writes := Suc (writes b)\<rparr>,
      snd (foldl (validateForm_each e (fieldsRef (state b))) (True, snd (measureYOffsets (b, h)))
             (map fst (tables h ! fieldsRef (state b)))))"
  using assms
  by (simp add: validateForm_def measureYOffsets_def Let_def setValidatorState_Updater split: prod.splits)

text \<open>
  C10, as the code has it: when \<open>ready\<close> is true, \<open>validateForm\<close> makes one write, whether
  or not a flag changed; its updater ignores the buffered value, so the result is the same
  for every buffered value \<open>x\<close>, and it puts a copy of the state of the last render in the
  buffer. The buffered state then has exactly the fields of the rendered state: a field
  that only the buffered state had, such as one added since the last commit, is lost. The
  records themselves are shared and keep their offsets.
\<close>

theorem validateForm_replaces_buffer:
  assumes "ready (state b)"
  shows "writes (fst (snd (validateForm e (b, h)))) = Suc (writes b) \<and>
         stateBufferRef (fst (snd (validateForm e (b, h)))) = state b \<and>
         validateForm e (b\<lparr>stateBufferRef := x\<rparr>, h) = validateForm e (b, h) \<and>
         getField (snd (snd (validateForm e (b, h)))) (fieldsRef (stateBufferRef (fst (snd (validateForm e (b, h)))))) name
           = getField h (fieldsRef (state b)) name \<and>
         yOffset (records (snd (snd (validateForm e (b, h)))) ! a) = yOffset (records h ! a)"
proof -
  let ?t = "fieldsRef (state b)"
  let ?h1 = "snd (measureYOffsets (b, h))"
  let ?l = "foldl (validateForm_each e ?t) (True, ?h1) (map fst (tables h ! ?t))"
  have v: "validateForm e (b, h) =
     (fst ?l, b\<lparr>stateBufferRef := state b, commitTimeoutRef := Some 50, writes := Suc (writes b)\<rparr>, snd ?l)"
    using validateForm_ready_eq [OF assms] .
  have r': "ready (state (b\<lparr>stateBufferRef := x\<rparr>))" using assms by simp
  have v': "validateForm e (b\<lparr>stateBufferRef := x\<rparr>, h) = validateForm e (b, h)"
    unfolding v validateForm_ready_eq [OF r'] by (simp add: measureYOffsets_def)
  have t: "tables (snd ?l) = tables h"
    using validateForm_loop [of e ?t True ?h1 "map fst (tables h ! ?t)"] measureYOffsets_frame(2) [of b h]
    by simp
  have y: "yOffset (records (snd ?l) ! a) = yOffset (records h ! a)"
    using validateForm_loop_records [of e ?t True ?h1 "map fst (tables h ! ?t)" a] measureYOffsets_frame(3) [of b h]
    by simp
  show ?thesis
    unfolding v' unfolding v using t y by (simp add: getField_def)
qed

theorem validateForm_replaces_buffer_witness:
  "ready (state (fst (addField ''phone'' True (\<lambda>e. False) (\<lambda>e. 0) exampleForm))) \<and>
   getField (snd (addField ''phone'' True (\<lambda>e. False) (\<lambda>e. 0) exampleForm))
     (fieldsRef (stateBufferRef (fst (addField ''phone'' True (\<lambda>e. False) (\<lambda>e. 0) exampleForm)))) ''phone'' = Some 2 \<and>
   getField (snd (snd (validateForm 5 (addField ''phone'' True (\<lambda>e. False) (\<lambda>e. 0) exampleForm))))
     (fieldsRef (stateBufferRef (fst (snd (validateForm 5 (addField ''phone'' True (\<lambda>e. False) (\<lambda>e. 0) exampleForm))))))
     ''phone'' = None \<and>
   writes (fst (snd (validateForm 5 (addField ''phone'' True (\<lambda>e. False) (\<lambda>e. 0) exampleForm)))) = 5"
  using validateForm_replaces_buffer [of "fst (addField ''phone'' True (\<lambda>e. False) (\<lambda>e. 0) exampleForm)" 5
     "snd (addField ''phone'' True (\<lambda>e. False) (\<lambda>e. 0) exampleForm)"
     "state (fst exampleForm)" "''phone''" 0]
  by (simp add: exampleForm_eq form_defs)

text \<open>
  C10 as stated, that every update still buffered is discarded, fails: an offset written
  by \<open>updateFieldOffsetY\<close> since the last commit, with the timer still pending and the
  rendered state as it was, is in the state that is committed after \<open>validateForm\<close>.
\<close>

theorem validateForm_keeps_offset_counterexample:
  "map_option yOffset (getRecord (snd exampleForm) (fieldsRef (state (fst exampleForm))) ''email'') = Some 0 \<and>
   commitTimeoutRef (fst (updateFieldOffsetY ''email'' 100 exampleForm)) = Some 50 \<and>
   state (fst (updateFieldOffsetY ''email'' 100 exampleForm)) = state (fst exampleForm) \<and>
   map_option yOffset
     (getRecord (snd (elapse 50 (snd (validateForm 5 (updateFieldOffsetY ''email'' 100 exampleForm)))))
        (fieldsRef (state (fst (elapse 50 (snd (validateForm 5 (updateFieldOffsetY ''email'' 100 exampleForm)))))))
        ''email'') = Some 100"
  by (simp add: exampleForm_eq form_defs)

subsection \<open>Scrolling to the first invalid field\<close>

lemma Min_insert_insert:
  fixes a b :: real
  assumes "finite S"
  shows "Min (insert a (insert b S)) = Min (insert (min b a) S)"
proof (cases "S = {}")
  case True
  then show ?thesis by (simp add: min.commute)
next
  case False
  with assms show ?thesis by (simp add: min.assoc min.commute min.left_commute)
qed

lemma scrollToInvalidFields_each_valid:
  "valid (records h ! snd entry) \<Longrightarrow> scrollToInvalidFields_each h acc entry = acc"
  by (cases acc) (simp add: scrollToInvalidFields_each_def)

lemma scrollToInvalidFields_each_invalid:
  "\<not> valid (records h ! snd entry) \<Longrightarrow>
   scrollToInvalidFields_each h (s, off) entry =
     (True, Some (case off of None \<Rightarrow> yOffset (records h ! snd entry)
                  | Some off' \<Rightarrow> min (yOffset (records h ! snd entry)) off'))"
  by (auto simp add: scrollToInvalidFields_each_def Let_def min_def split: option.splits)

lemma scrollToInvalidFields_loop:
  "foldl (scrollToInvalidFields_each h) (s, off) es =
     (let offs = map (\<lambda>entry. yOffset (records h ! snd entry))
                   (filter (\<lambda>entry. \<not> valid (records h ! snd entry)) es)
      in (s \<or> offs \<noteq> [],
          case off of
            None \<Rightarrow> if offs = [] then None else Some (Min (set offs))
          | Some off' \<Rightarrow> Some (Min (insert off' (set offs)))))"
proof (induction es arbitrary: s off)
  case Nil
  then show ?case by (simp split: option.splits)
next
  case (Cons entry es)
  let ?y = "yOffset (records h ! snd entry)"
  let ?offs = "map (\<lambda>entry. yOffset (records h ! snd entry))
                   (filter (\<lambda>entry. \<not> valid (records h ! snd entry)) es)"
  show ?case
  proof (cases "valid (records h ! snd entry)")
    case True
    then show ?thesis
      using Cons.IH [of s off] by (simp add: scrollToInvalidFields_each_valid)
  next
    case False
    show ?thesis
    proof (cases off)
      case None
      have "foldl (scrollToInvalidFields_each h) (s, off) (entry # es) =
            foldl (scrollToInvalidFields_each h) (True, Some ?y) es"
        using False None by (simp add: scrollToInvalidFields_each_invalid)
      also have "\<dots> = (True, Some (Min (insert ?y (set ?offs))))"
        using Cons.IH [of True "Some ?y"] by (simp add: Let_def)
      finally show ?thesis using False None by (simp add: Let_def)
    next
      case (Some off')
      have "foldl (scrollToInvalidFields_each h) (s, off) (entry # es) =
            foldl (scrollToInvalidFields_each h) (True, Some (min ?y off')) es"
        using False Some by (simp add: scrollToInvalidFields_each_invalid)
      also have "\<dots> = (True, Some (Min (insert (min ?y off') (set ?offs))))"
        using Cons.IH [of True "Some (min ?y off')"] by (simp add: Let_def)
      also have "Min (insert (min ?y off') (set ?offs)) = Min (insert off' (insert ?y (set ?offs)))"
        using Min_insert_insert [of "set ?offs" off' ?y] by simp
      finally show ?thesis using False Some by (simp add: Let_def)
    qed
  qed
qed

text \<open>
  C2, as the code has it: with a scrollable node, \<open>scrollToInvalidFields\<close> calls
  \<open>scrollTo\<close> exactly when some record of \<open>state.fields\<close> is not valid, and the target
  is \<open>max (o - m) 0\<close> for the least offset \<open>o\<close> among those records, so it is never
  negative; the comparison is strict, so the first record with that offset is the one
  kept. Without a scrollable node nothing is called.
\<close>

theorem scrollToInvalidFields_target:
  "scrollToInvalidFields (Some node) m (b, h) =
     (let offs = map (\<lambda>entry. yOffset (records h ! snd entry))
                   (filter (\<lambda>entry. \<not> valid (records h ! snd entry)) (tables h ! fieldsRef (state b)))
      in if offs = [] then (b, h)
         else (b, h\<lparr>effects := effects h @ [ScrollTo (max (Min (set offs) - m) 0) True]\<rparr>)) \<and>
   scrollToInvalidFields None m (b, h) = (b, h)"
  by (simp add: scrollToInvalidFields_def scrollToInvalidFields_loop Let_def)

theorem scrollToInvalidFields_target_witness:
  "effects (snd (scrollToInvalidFields (Some ()) 40 exampleInvalidForm)) = [ScrollTo 60 True] \<and>
   effects (snd (scrollToInvalidFields (Some ()) 40 exampleForm)) = []"
  using scrollToInvalidFields_target [of "()" 40 "fst exampleInvalidForm" "snd exampleInvalidForm"]
  by (simp add: exampleInvalidForm_def exampleForm_eq form_defs scrollToInvalidFields_def
        scrollToInvalidFields_each_def)

text \<open>
  C2 as stated, for every field mapping, fails where no scrollable node was resolved:
  field \<open>b\<close> is invalid and no scroll command is issued.
\<close>

theorem scrollToInvalidFields_no_node_counterexample:
  "map_option valid (getRecord (snd exampleInvalidForm) (fieldsRef (state (fst exampleInvalidForm))) ''b'')
     = Some False \<and>
   scrollToInvalidFields (None :: unit option) 40 exampleInvalidForm = exampleInvalidForm \<and>
   effects (snd exampleInvalidForm) = []"
  by (simp add: exampleInvalidForm_def form_defs scrollToInvalidFields_def)

subsection \<open>Resetting the validations\<close>

lemma wf_world_getField:
  assumes "wf_world (b, h)" and "t < length (tables h)" and "getField h t name = Some a"
  shows "a < length (records h)"
proof -
  have "(name, a) \<in> set (tables h ! t)"
    using assms(3) by (simp add: getField_def map_of_SomeD)
  moreover have "list_all (\<lambda>(name, a). a < length (records h)) (tables h ! t)"
    using assms(1,2) by (simp add: wf_world_def list_all_length)
  ultimately show ?thesis by (auto simp add: list_all_iff)
qed

lemma wf_world_fieldsRef:
  "wf_world (b, h) \<Longrightarrow> fieldsRef (state b) < length (tables h)"
  "wf_world (b, h) \<Longrightarrow> fieldsRef (stateBufferRef b) < length (tables h)"
  by (simp_all add: wf_world_def)

lemma resetValidations_each_frame:
  "tables (resetValidations_each t h k) = tables h"
  "effects (resetValidations_each t h k) = effects h"
  "length (records (resetValidations_each t h k)) = length (records h)"
  "yOffset (records (resetValidations_each t h k) ! a) = yOffset (records h ! a)"
  "measureYOffset (records (resetValidations_each t h k) ! a) = measureYOffset (records h ! a)"
  "validateCallback (records (resetValidations_each t h k) ! a) = validateCallback (records h ! a)"
  by (simp_all add: resetValidations_each_def nth_update_valid split: option.splits)

lemma resetValidations_each_valid:
  "valid (records (resetValidations_each t h k) ! a) =
     (valid (records h ! a) \<or> (getField h t k = Some a \<and> a < length (records h)))"
  by (auto simp add: resetValidations_each_def nth_list_update_total split: option.splits)

lemma resetValidations_loop_frame:
  "tables (foldl (resetValidations_each t) h ks) = tables h"
  "effects (foldl (resetValidations_each t) h ks) = effects h"
  "length (records (foldl (resetValidations_each t) h ks)) = length (records h)"
  "yOffset (records (foldl (resetValidations_each t) h ks) ! a) = yOffset (records h ! a)"
  "measureYOffset (records (foldl (resetValidations_each t) h ks) ! a) = measureYOffset (records h ! a)"
  "validateCallback (records (foldl (resetValidations_each t) h ks) ! a) = validateCallback (records h ! a)"
  by (induction ks arbitrary: h) (simp_all add: resetValidations_each_frame)

lemma resetValidations_loop_valid:
  "valid (records (foldl (resetValidations_each t) h ks) ! a) =
     (valid (records h ! a) \<or> (a < length (records h) \<and> (\<exists>k \<in> set ks. getField h t k = Some a)))"
proof (induction ks arbitrary: h)
  case Nil
  then show ?case by simp
next
  case (Cons k ks)
  let ?h1 = "resetValidations_each t h k"
  have g: "getField ?h1 t k' = getField h t k'" for k'
    by (simp add: getField_def resetValidations_each_frame)
  have "valid (records (foldl (resetValidations_each t) h (k # ks)) ! a) =
        (valid (records ?h1 ! a) \<or> (a < length (records ?h1) \<and> (\<exists>k \<in> set ks. getField ?h1 t k = Some a)))"
    using Cons.IH [of ?h1] by simp
  also have "\<dots> = ((valid (records h ! a) \<or> (getField h t k = Some a \<and> a < length (records h))) \<or>
                    (a < length (records h) \<and> (\<exists>k \<in> set ks. getField h t k = Some a)))"
    by (simp only: resetValidations_each_valid resetValidations_each_frame(3) g)
  also have "\<dots> = (valid (records h ! a) \<or>
                    (a < length (records h) \<and> (\<exists>k' \<in> set (k # ks). getField h t k' = Some a)))"
    by auto
  finally show ?case .
qed

lemma resetValidations_eq:
  "resetValidations (b, h) =
     (b\<lparr>stateBufferRef := stateBufferRef b, commitTimeoutRef := Some 50, writes := Suc (writes b)\<rparr>,
      foldl (resetValidations_each (fieldsRef (stateBufferRef b))) h
        (map fst (tables h ! fieldsRef (stateBufferRef b))))"
  by (simp add: resetValidations_def setValidatorState_Updater)

text \<open>
  C5: \<open>resetValidations\<close> makes one write. After it every field of the buffered state,
  the state that the write produces and the timer commits, is valid, and so is every field
  of the rendered state once the delay has passed; no callback is consulted. The tables,
  the offsets and the closures of all records are as before.
\<close>

theorem resetValidations_all_valid:
  assumes "wf_world (b, h)"
  shows "writes (fst (resetValidations (b, h))) = Suc (writes b) \<and>
         stateBufferRef (fst (resetValidations (b, h))) = stateBufferRef b \<and>
         tables (snd (resetValidations (b, h))) = tables h \<and>
         (\<forall>name r. getRecord (snd (resetValidations (b, h))) (fieldsRef (stateBufferRef b)) name = Some r
                      \<longrightarrow> valid r) \<and>
         (\<forall>name r. 50 \<le> d \<longrightarrow>
              getRecord (snd (elapse d (resetValidations (b, h))))
                (fieldsRef (state (fst (elapse d (resetValidations (b, h)))))) name = Some r
                      \<longrightarrow> valid r) \<and>
         (\<forall>a. yOffset (records (snd (resetValidations (b, h))) ! a) = yOffset (records h ! a) \<and>
              measureYOffset (records (snd (resetValidations (b, h))) ! a) = measureYOffset (records h ! a) \<and>
              validateCallback (records (snd (resetValidations (b, h))) ! a) = validateCallback (records h ! a))"
proof -
  let ?t = "fieldsRef (stateBufferRef b)"
  let ?ks = "map fst (tables h ! ?t)"
  let ?h' = "foldl (resetValidations_each ?t) h ?ks"
  have tabs: "tables ?h' = tables h" by (rule resetValidations_loop_frame)
  have allv: "valid r" if g: "getRecord ?h' ?t name = Some r" for name r
  proof -
    from g obtain a where a: "getField ?h' ?t name = Some a" and r: "r = records ?h' ! a"
      by (auto simp add: getRecord_def)
    from a have a': "getField h ?t name = Some a"
      by (simp add: getField_tables [OF tabs])
    have "a < length (records h)"
      using wf_world_getField [OF assms wf_world_fieldsRef(2) [OF assms] a'] .
    moreover have "name \<in> set ?ks"
      using getField_keys [of h ?t name] a' by blast
    ultimately have "valid (records ?h' ! a)"
      using resetValidations_loop_valid [of ?t h ?ks a] a' by blast
    with r show ?thesis by simp
  qed
  let ?b1 = "b\<lparr>stateBufferRef := stateBufferRef b, commitTimeoutRef := Some 50, writes := Suc (writes b)\<rparr>"
  have rv: "resetValidations (b, h) = (?b1, ?h')"
    by (rule resetValidations_eq)
  have e: "snd (elapse d (?b1, ?h')) = ?h'" "state (fst (elapse d (?b1, ?h'))) = stateBufferRef b"
    if "50 \<le> d"
    using that by (simp_all add: elapse_def)
  have frame: "yOffset (records ?h' ! a) = yOffset (records h ! a) \<and>
        measureYOffset (records ?h' ! a) = measureYOffset (records h ! a) \<and>
        validateCallback (records ?h' ! a) = validateCallback (records h ! a)" for a
    by (simp add: resetValidations_loop_frame)
  have c1: "writes (fst (resetValidations (b, h))) = Suc (writes b)"
    and c2: "stateBufferRef (fst (resetValidations (b, h))) = stateBufferRef b"
    and c3: "tables (snd (resetValidations (b, h))) = tables h"
    unfolding rv using tabs by simp_all
  have c4: "\<forall>name r. getRecord (snd (resetValidations (b, h))) ?t name = Some r \<longrightarrow> valid r"
    unfolding rv using allv by simp
  have c5: "\<forall>name r. 50 \<le> d \<longrightarrow>
              getRecord (snd (elapse d (resetValidations (b, h))))
                (fieldsRef (state (fst (elapse d (resetValidations (b, h)))))) name = Some r
                      \<longrightarrow> valid r"
  proof (intro allI impI)
    fix name r
    assume d: "50 \<le> d"
      and g: "getRecord (snd (elapse d (resetValidations (b, h))))
                (fieldsRef (state (fst (elapse d (resetValidations (b, h)))))) name = Some r"
    from g have "getRecord ?h' ?t name = Some r"
      unfolding rv e(1) [OF d] e(2) [OF d] .
    then show "valid r" by (rule allv)
  qed
  have c6: "\<forall>a. yOffset (records (snd (resetValidations (b, h))) ! a) = yOffset (records h ! a) \<and>
              measureYOffset (records (snd (resetValidations (b, h))) ! a) = measureYOffset (records h ! a) \<and>
              validateCallback (records (snd (resetValidations (b, h))) ! a) = validateCallback (records h ! a)"
    unfolding rv using frame by simp
  from c1 c2 c3 c4 c5 c6 show ?thesis by blast
qed

lemma exampleForm_invalidated:
  "snd (validateForm 12 exampleForm) =
     (\<lparr>state = \<lparr>ready = True, fieldsRef = 2\<rparr>, stateBufferRef = \<lparr>ready = True, fieldsRef = 2\<rparr>,
       commitTimeoutRef = Some 50, writes = 4\<rparr>,
      \<lparr>records = [\<lparr>valid = True, yOffset = 0, measureYOffset = \<lambda>e. 0, validateCallback = \<lambda>e. 0 < e\<rparr>,
                  \<lparr>valid = False, yOffset = 0, measureYOffset = \<lambda>e. 0, validateCallback = \<lambda>e. e < 10\<rparr>],
       tables = [[], [(''name'', 0)], [(''name'', 0), (''email'', 1)]],
       effects = [MeasureYOffset ''name'', MeasureYOffset ''email'']\<rparr>)"
  by (simp add: exampleForm_eq form_defs)

theorem resetValidations_all_valid_witness:
  "wf_world (snd (validateForm 12 exampleForm)) \<and>
   map_option valid (getRecord (snd (snd (validateForm 12 exampleForm)))
      (fieldsRef (stateBufferRef (fst (snd (validateForm 12 exampleForm))))) ''email'') = Some False \<and>
   map_option valid (getRecord (snd (resetValidations (snd (validateForm 12 exampleForm))))
      (fieldsRef (stateBufferRef (fst (snd (validateForm 12 exampleForm))))) ''email'') = Some True \<and>
   \<not> validateCallback (records (snd (resetValidations (snd (validateForm 12 exampleForm)))) ! 1) 12"
proof -
  let ?w = "snd (validateForm 12 exampleForm)"
  have wf: "wf_world (fst ?w, snd ?w)"
    by (simp add: exampleForm_invalidated wf_world_def)
  have before: "map_option valid (getRecord (snd ?w) (fieldsRef (stateBufferRef (fst ?w))) ''email'') = Some False"
    and cb: "\<not> validateCallback (records (snd ?w) ! 1) 12"
    by (simp_all add: exampleForm_invalidated getRecord_def getField_def)
  obtain r where r: "getRecord (snd (resetValidations ?w)) (fieldsRef (stateBufferRef (fst ?w))) ''email'' = Some r"
    unfolding exampleForm_invalidated by (simp add: form_defs)
  have all: "\<forall>name r. getRecord (snd (resetValidations (fst ?w, snd ?w))) (fieldsRef (stateBufferRef (fst ?w))) name = Some r
                      \<longrightarrow> valid r"
    and same: "\<forall>a. validateCallback (records (snd (resetValidations (fst ?w, snd ?w))) ! a)
                     = validateCallback (records (snd ?w) ! a)"
    using resetValidations_all_valid [OF wf, of 50] by blast+
  from all r have "valid r" by simp
  with r have after: "map_option valid (getRecord (snd (resetValidations ?w))
      (fieldsRef (stateBufferRef (fst ?w))) ''email'') = Some True" by simp
  from same cb have cb': "\<not> validateCallback (records (snd (resetValidations ?w)) ! 1) 12" by simp
  from wf before after cb' show ?thesis by simp
qed

subsection \<open>Registering a field\<close>

text \<open>
  A name that \<open>validatorState.fields\<close> already has is refused: \<open>addField\<close> warns and
  leaves the state, the buffer and every object as they are.
\<close>

lemma addField_collision_rendered:
  "getField h (fieldsRef (state b)) name = Some a \<Longrightarrow>
   addField name isValid validateCb measureCb (b, h) =
     (b, h\<lparr>effects := effects h @
        [ConsoleWarn (''Found two or more fields with name '' @ name @
           ''. This will cause unexpected behavior when validating form.'')]\<rparr>)"
  by (simp add: addField_def getProperty_def)

text \<open>So is a name that \<open>Object.prototype\<close> has: it can never be registered.\<close>

lemma addField_refused:
  "getProperty h (fieldsRef (state b)) name \<noteq> Absent \<Longrightarrow>
   addField name isValid validateCb measureCb (b, h) =
     (b, h\<lparr>effects := effects h @
        [ConsoleWarn (''Found two or more fields with name '' @ name @
           ''. This will cause unexpected behavior when validating form.'')]\<rparr>)"
  by (simp add: addField_def)

text \<open>
  C3 on two fields called \<open>email\<close> that register before the buffered state is committed,
  as two fields of one first render do. The check reads \<open>validatorState.fields\<close>, which
  is still empty, so the second call does not warn; its record replaces the first one
  in the buffered state, and that state is the one committed 50 ms later.
\<close>

theorem addField_duplicate_before_commit:
  "map_option (\<lambda>r. (valid r, validateCallback r (), measureYOffset r ()))
     (getRecord (snd (addField ''email'' True (\<lambda>e. True) (\<lambda>e. 1) (ValidatedForm :: unit World)))
        (fieldsRef (stateBufferRef (fst (addField ''email'' True (\<lambda>e. True) (\<lambda>e. 1) (ValidatedForm :: unit World)))))
        ''email'') = Some (True, True, 1) \<and>
   map_option (\<lambda>r. (valid r, validateCallback r (), measureYOffset r ()))
     (getRecord (snd (addField ''email'' False (\<lambda>e. False) (\<lambda>e. 2)
                        (addField ''email'' True (\<lambda>e. True) (\<lambda>e. 1) (ValidatedForm :: unit World))))
        (fieldsRef (stateBufferRef (fst (addField ''email'' False (\<lambda>e. False) (\<lambda>e. 2)
                        (addField ''email'' True (\<lambda>e. True) (\<lambda>e. 1) (ValidatedForm :: unit World))))))
        ''email'') = Some (False, False, 2) \<and>
   effects (snd (addField ''email'' False (\<lambda>e. False) (\<lambda>e. 2)
                        (addField ''email'' True (\<lambda>e. True) (\<lambda>e. 1) (ValidatedForm :: unit World)))) = [] \<and>
   map_option (\<lambda>r. (valid r, validateCallback r (), measureYOffset r ()))
     (getRecord (snd (elapse 50 (addField ''email'' False (\<lambda>e. False) (\<lambda>e. 2)
                        (addField ''email'' True (\<lambda>e. True) (\<lambda>e. 1) (ValidatedForm :: unit World)))))
        (fieldsRef (state (fst (elapse 50 (addField ''email'' False (\<lambda>e. False) (\<lambda>e. 2)
                        (addField ''email'' True (\<lambda>e. True) (\<lambda>e. 1) (ValidatedForm :: unit World)))))))
        ''email'') = Some (False, False, 2)"
  by (simp add: form_defs)

subsection \<open>The ready flag\<close>

lemma validateForm_cell:
  "fst (snd (validateForm e (b, h))) =
     (if ready (state b)
      then b\<lparr>stateBufferRef := state b, commitTimeoutRef := Some 50, writes := Suc (writes b)\<rparr>
      else b)"
  by (simp add: validateForm_def measureYOffsets_def Let_def setValidatorState_Updater split: prod.splits)

lemma validateField_cell:
  "fst (caught (b, h) (validateField name e (b, h))) = b \<or>
   fst (caught (b, h) (validateField name e (b, h))) =
     b\<lparr>commitTimeoutRef := Some 50, writes := Suc (writes b)\<rparr>"
  by (simp add: validateField_def caught_def setValidatorState_Updater Let_def split: property.splits)

lemma addField_cell:
  "fst (addField name v vc mc (b, h)) = b \<or>
   fst (addField name v vc mc (b, h)) =
     b\<lparr>stateBufferRef := (stateBufferRef b)\<lparr>fieldsRef := length (tables h)\<rparr>,
       commitTimeoutRef := Some 50, writes := Suc (writes b)\<rparr>"
  by (simp add: addField_def setValidatorState_Updater)

lemma other_cells:
  "fst (readyEffect (b, h)) =
     b\<lparr>stateBufferRef := (stateBufferRef b)\<lparr>ready := True\<rparr>, commitTimeoutRef := Some 50, writes := Suc (writes b)\<rparr>"
  "fst (removeField name (b, h)) = b\<lparr>commitTimeoutRef := Some 50, writes := Suc (writes b)\<rparr>"
  "fst (updateFieldOffsetY name y (b, h)) = b\<lparr>commitTimeoutRef := Some 50, writes := Suc (writes b)\<rparr>"
  "fst (resetValidations (b, h)) = b\<lparr>commitTimeoutRef := Some 50, writes := Suc (writes b)\<rparr>"
  by (simp_all add: readyEffect_def removeField_def updateFieldOffsetY_def resetValidations_def
        setValidatorState_Updater split: property.splits)

lemma elapse_cell:
  "fst (elapse d (b, h)) = b \<or>
   (\<exists>r. fst (elapse d (b, h)) = b\<lparr>commitTimeoutRef := Some r\<rparr>) \<or>
   fst (elapse d (b, h)) = b\<lparr>state := stateBufferRef b, commitTimeoutRef := None\<rparr>"
  by (auto simp add: elapse_def split: option.splits)

lemma step_buffer_ready:
  assumes "ready (stateBufferRef (fst w))"
  shows "ready (stateBufferRef (fst (step w ev)))"
proof -
  obtain b h where w: "w = (b, h)" by (cases w)
  show ?thesis
  proof (cases ev)
    case (AddField name v vc mc)
    then show ?thesis using assms addField_cell [of name v vc mc b h] by (auto simp add: w)
  next
    case (ValidateField name e)
    then show ?thesis using assms validateField_cell [of b h name e] by (auto simp add: w)
  next
    case (ValidateForm e)
    then show ?thesis using assms by (simp add: w validateForm_cell)
  next
    case (Elapse d)
    then show ?thesis using assms elapse_cell [of d b h] by (auto simp add: w)
  qed (use assms in \<open>simp_all add: w other_cells\<close>)
qed

lemma step_cell_inv:
  assumes "cell_inv w"
  shows "cell_inv (step w ev)"
proof -
  obtain b h where w: "w = (b, h)" by (cases w)
  show ?thesis
  proof (cases ev)
    case (AddField name v vc mc)
    then show ?thesis using assms addField_cell [of name v vc mc b h] by (auto simp add: w cell_inv_def)
  next
    case (ValidateField name e)
    then show ?thesis using assms validateField_cell [of b h name e] by (auto simp add: w cell_inv_def)
  next
    case (ValidateForm e)
    then show ?thesis using assms by (simp add: w validateForm_cell cell_inv_def)
  next
    case (Elapse d)
    then show ?thesis using assms elapse_cell [of d b h] by (auto simp add: w cell_inv_def)
  qed (use assms in \<open>simp_all add: w other_cells cell_inv_def\<close>)
qed

lemma step_state_ready:
  assumes "cell_inv w" and "ready (state (fst w))"
  shows "ready (state (fst (step w ev)))"
proof -
  obtain b h where w: "w = (b, h)" by (cases w)
  show ?thesis
  proof (cases ev)
    case (AddField name v vc mc)
    then show ?thesis using assms addField_cell [of name v vc mc b h] by (auto simp add: w cell_inv_def)
  next
    case (ValidateField name e)
    then show ?thesis using assms validateField_cell [of b h name e] by (auto simp add: w cell_inv_def)
  next
    case (ValidateForm e)
    then show ?thesis using assms by (simp add: w validateForm_cell cell_inv_def)
  next
    case (Elapse d)
    then show ?thesis using assms elapse_cell [of d b h] by (auto simp add: w cell_inv_def)
  qed (use assms in \<open>simp_all add: w other_cells cell_inv_def\<close>)
qed

lemma run_append: "run (evs1 @ evs2) w = run evs2 (run evs1 w)"
  by (simp add: run_def)

lemma run_Cons: "run (ev # evs) w = run evs (step w ev)"
  by (simp add: run_def)

lemma run_cell_inv: "cell_inv w \<Longrightarrow> cell_inv (run evs w)"
  by (induction evs arbitrary: w) (simp_all add: run_def step_cell_inv)

lemma run_buffer_ready: "ready (stateBufferRef (fst w)) \<Longrightarrow> ready (stateBufferRef (fst (run evs w)))"
  by (induction evs arbitrary: w) (simp_all add: run_def step_buffer_ready)

lemma run_state_ready: "cell_inv w \<Longrightarrow> ready (state (fst w)) \<Longrightarrow> ready (state (fst (run evs w)))"
  by (induction evs arbitrary: w) (simp_all add: run_def step_cell_inv step_state_ready)

lemma ValidatedForm_cell_inv: "cell_inv ValidatedForm"
  by (simp add: cell_inv_def ValidatedForm_def useBufferedState_def)

text \<open>
  C8: \<open>ready\<close> is false in the initial state. Once it is true in the rendered state it is
  true after every further run of events. The ready effect puts it in the buffered state,
  where it stays; so in a world reached after that effect in which no timer is pending,
  that is, once the buffered state has been committed, \<open>ready\<close> is true in the rendered
  state, and in every world reachable from there.
\<close>

theorem ready_monotonic:
  "\<not> ready (state (fst ValidatedForm)) \<and>
   (ready (state (fst (run evs1 ValidatedForm))) \<longrightarrow>
      ready (state (fst (run (evs1 @ evs2) ValidatedForm)))) \<and>
   ready (stateBufferRef (fst (run (evs1 @ ReadyEffect # evs2) ValidatedForm))) \<and>
   (commitTimeoutRef (fst (run (evs1 @ ReadyEffect # evs2) ValidatedForm)) = None \<longrightarrow>
      ready (state (fst (run (evs1 @ ReadyEffect # evs2 @ evs3) ValidatedForm))))"
proof -
  let ?w1 = "run evs1 ValidatedForm"
  have start: "\<not> ready (state (fst ValidatedForm))"
    by (simp add: ValidatedForm_def useBufferedState_def DEFAULT_VALIDATOR_STATE_def)
  have inv1: "cell_inv ?w1"
    by (rule run_cell_inv [OF ValidatedForm_cell_inv])
  have mono: "ready (state (fst (run (evs1 @ evs2) ValidatedForm)))" if "ready (state (fst ?w1))"
    unfolding run_append using inv1 that by (rule run_state_ready)
  let ?w2 = "run (evs1 @ ReadyEffect # evs2) ValidatedForm"
  have w2: "?w2 = run evs2 (readyEffect ?w1)"
    by (simp add: run_append run_Cons)
  have "ready (stateBufferRef (fst (readyEffect ?w1)))"
    by (cases ?w1) (simp add: other_cells)
  then have buf: "ready (stateBufferRef (fst ?w2))"
    unfolding w2 by (rule run_buffer_ready)
  have inv2: "cell_inv ?w2"
    by (rule run_cell_inv [OF ValidatedForm_cell_inv])
  have after: "ready (state (fst (run (evs1 @ ReadyEffect # evs2 @ evs3) ValidatedForm)))"
    if "commitTimeoutRef (fst ?w2) = None"
  proof -
    from that inv2 buf have "ready (state (fst ?w2))"
      by (simp add: cell_inv_def)
    with inv2 have "ready (state (fst (run evs3 ?w2)))"
      by (rule run_state_ready)
    then show ?thesis by (simp add: run_append run_Cons)
  qed
  from start mono buf after show ?thesis by blast
qed

theorem ready_monotonic_witness:
  "ready (state (fst (run ([AddField ''name'' True (\<lambda>e. 0 < e) (\<lambda>e. 0)] @ ReadyEffect # [Elapse 50] @
                          [ValidateForm 0, RemoveField ''name'', ResetValidations, Elapse 50])
                       (ValidatedForm :: nat World)))) \<and>
   commitTimeoutRef (fst (run ([AddField ''name'' True (\<lambda>e. 0 < e) (\<lambda>e. 0)] @ ReadyEffect # [Elapse 50])
                       (ValidatedForm :: nat World))) = None \<and>
   \<not> ready (state (fst (run ([AddField ''name'' True (\<lambda>e. 0 < e) (\<lambda>e. 0)] @ ReadyEffect # [Elapse 49])
                       (ValidatedForm :: nat World))))"
proof -
  have none: "commitTimeoutRef (fst (run ([AddField ''name'' True (\<lambda>e. 0 < e) (\<lambda>e. 0)] @ ReadyEffect # [Elapse 50])
                       (ValidatedForm :: nat World))) = None"
    and early: "\<not> ready (state (fst (run ([AddField ''name'' True (\<lambda>e. 0 < e) (\<lambda>e. 0)] @ ReadyEffect # [Elapse 49])
                       (ValidatedForm :: nat World))))"
    by (simp_all add: form_defs)
  from none show ?thesis
    using ready_monotonic [of "[AddField ''name'' True (\<lambda>e. 0 < e) (\<lambda>e. 0)]" "[Elapse 50]"
             "[ValidateForm 0, RemoveField ''name'', ResetValidations, Elapse 50]"] early
    by blast
qed

subsection \<open>The store along a run\<close>

text \<open>
  Every world that a run reaches from the initial form is well formed, and its two tables
  share their records: the hypotheses of the theorems above hold in all of them.
\<close>

lemma wf_world_iff:
  "wf_world (b, h) =
     (fieldsRef (state b) < length (tables h) \<and> fieldsRef (stateBufferRef b) < length (tables h) \<and>
      (\<forall>t \<in> set (tables h). \<forall>(name, a) \<in> set t. a < length (records h)))"
  by (simp add: wf_world_def list_all_iff)

lemma wf_world_same_objects:
  assumes "wf_world (b, h)" and "tables h' = tables h" and "length (records h') = length (records h)"
    and "fieldsRef (state b') = fieldsRef (state b) \<or> fieldsRef (state b') = fieldsRef (stateBufferRef b)"
    and "fieldsRef (stateBufferRef b') = fieldsRef (state b) \<or>
         fieldsRef (stateBufferRef b') = fieldsRef (stateBufferRef b)"
  shows "wf_world (b', h')"
  using assms unfolding wf_world_iff by auto

lemma shares_same_tables:
  assumes "shares (b, h)" and "tables h' = tables h"
    and "fieldsRef (state b') = fieldsRef (state b) \<and> fieldsRef (stateBufferRef b') = fieldsRef (stateBufferRef b)
         \<or> fieldsRef (state b') = fieldsRef (stateBufferRef b') "
  shows "shares (b', h')"
proof -
  have g: "getField h' t name = getField h t name" for t name
    using assms(2) by (simp add: getField_def)
  from assms(3) show ?thesis
  proof
    assume "fieldsRef (state b') = fieldsRef (state b) \<and> fieldsRef (stateBufferRef b') = fieldsRef (stateBufferRef b)"
    then show ?thesis using assms(1) by (simp add: shares_def g)
  next
    assume "fieldsRef (state b') = fieldsRef (stateBufferRef b')"
    then show ?thesis by (simp add: shares_def)
  qed
qed

lemma set_AList_update: "set (AList.update k v al) \<subseteq> insert (k, v) (set al)"
  by (induction al) auto

lemma set_AList_delete: "set (AList.delete k al) \<subseteq> set al"
  by (auto simp add: AList.delete_eq)

lemma store_updateFieldOffsetY:
  "tables (snd (updateFieldOffsetY name y (b, h))) = tables h"
  "length (records (snd (updateFieldOffsetY name y (b, h)))) = length (records h)"
  by (simp_all add: updateFieldOffsetY_def setValidatorState_Updater split: property.splits)

lemma store_validateField:
  "tables (snd (caught (b, h) (validateField name e (b, h)))) = tables h"
  "length (records (snd (caught (b, h) (validateField name e (b, h))))) = length (records h)"
  by (simp_all add: validateField_def caught_def setValidatorState_Updater Let_def split: property.splits)

lemma store_resetValidations:
  "tables (snd (resetValidations (b, h))) = tables h"
  "length (records (snd (resetValidations (b, h)))) = length (records h)"
  by (simp_all add: resetValidations_eq resetValidations_loop_frame)

lemma store_validateForm:
  "tables (snd (snd (validateForm e (b, h)))) = tables h"
  "length (records (snd (snd (validateForm e (b, h))))) = length (records h)"
proof -
  show "tables (snd (snd (validateForm e (b, h)))) = tables h"
  proof (cases "ready (state b)")
    case True
    show ?thesis
      unfolding validateForm_ready_eq [OF True]
      using validateForm_loop [of e "fieldsRef (state b)" True "snd (measureYOffsets (b, h))"
              "map fst (tables h ! fieldsRef (state b))"]
      by (simp add: measureYOffsets_frame)
  next
    case False
    then show ?thesis by (simp add: validateForm_def)
  qed
  show "length (records (snd (snd (validateForm e (b, h))))) = length (records h)"
  proof (cases "ready (state b)")
    case True
    show ?thesis
      unfolding validateForm_ready_eq [OF True]
      using validateForm_loop_records [of e "fieldsRef (state b)" True "snd (measureYOffsets (b, h))"
              "map fst (tables h ! fieldsRef (state b))"]
      by (simp add: measureYOffsets_frame)
  next
    case False
    then show ?thesis by (simp add: validateForm_def)
  qed
qed

lemma store_readyEffect: "snd (readyEffect (b, h)) = h"
  by (simp add: readyEffect_def setValidatorState_Updater)

lemma store_elapse: "snd (elapse d (b, h)) = h"
  by (simp add: elapse_def split: option.splits)

lemma removeField_eq:
  "removeField name (b, h) =
     (b\<lparr>commitTimeoutRef := Some 50, writes := Suc (writes b)\<rparr>,
      h\<lparr>tables := (tables h)[fieldsRef (stateBufferRef b) :=
           AList.delete name (tables h ! fieldsRef (stateBufferRef b))]\<rparr>)"
  by (simp add: removeField_def setValidatorState_Updater)

lemma addField_new_eq:
  "getProperty h (fieldsRef (state b)) name = Absent \<Longrightarrow>
   addField name v vc mc (b, h) =
     (b\<lparr>stateBufferRef := (stateBufferRef b)\<lparr>fieldsRef := length (tables h)\<rparr>,
        commitTimeoutRef := Some 50, writes := Suc (writes b)\<rparr>,
      h\<lparr>records := records h @ [\<lparr>valid = v, yOffset = 0, measureYOffset = mc, validateCallback = vc\<rparr>],
        tables := tables h @
          [AList.update name (length (records h)) (tables h ! fieldsRef (stateBufferRef b))]\<rparr>)"
  by (simp add: addField_def setValidatorState_Updater)

lemma wf_world_removeField:
  assumes "wf_world (b, h)"
  shows "wf_world (removeField name (b, h))"
proof -
  let ?tb = "fieldsRef (stateBufferRef b)"
  let ?ts = "(tables h)[?tb := AList.delete name (tables h ! ?tb)]"
  have tb: "?tb < length (tables h)" using assms by (simp add: wf_world_iff)
  have "\<forall>(name, a) \<in> set t. a < length (records h)" if t: "t \<in> set ?ts" for t
  proof -
    from t have "t = AList.delete name (tables h ! ?tb) \<or> t \<in> set (tables h)"
      using set_update_subset_insert [of "tables h" ?tb "AList.delete name (tables h ! ?tb)"] by auto
    moreover have "tables h ! ?tb \<in> set (tables h)" using tb by simp
    ultimately show ?thesis
      using assms set_AList_delete [of name "tables h ! ?tb"] unfolding wf_world_iff by blast
  qed
  then show ?thesis
    using assms unfolding removeField_eq wf_world_iff by simp
qed

lemma wf_world_addField:
  assumes "wf_world (b, h)"
  shows "wf_world (addField name v vc mc (b, h))"
proof (cases "getProperty h (fieldsRef (state b)) name = Absent")
  case False
  then show ?thesis
    using assms by (simp add: addField_refused wf_world_iff)
next
  case True
  let ?tb = "fieldsRef (stateBufferRef b)"
  let ?new = "AList.update name (length (records h)) (tables h ! ?tb)"
  have tb: "tables h ! ?tb \<in> set (tables h)" using assms by (simp add: wf_world_iff)
  have old: "\<forall>(name, a) \<in> set t. a < Suc (length (records h))" if "t \<in> set (tables h)" for t
    using assms that unfolding wf_world_iff by fastforce
  have new: "\<forall>(name, a) \<in> set ?new. a < Suc (length (records h))"
    using set_AList_update [of name "length (records h)" "tables h ! ?tb"] old [OF tb] by auto
  show ?thesis
    using assms old new unfolding addField_new_eq [OF True] wf_world_iff by auto
qed

lemma wf_world_step:
  assumes "wf_world w"
  shows "wf_world (step w ev)"
proof -
  obtain b h where w: "w = (b, h)" by (cases w)
  obtain b' h' where s: "step w ev = (b', h')" by (cases "step w ev")
  note wf = assms [unfolded w]
  show ?thesis
  proof (cases ev)
    case ReadyEffect
    then show ?thesis
      using wf s other_cells(1) [of b h] store_readyEffect [of b h]
      by (auto simp add: w intro!: wf_world_same_objects [OF wf])
  next
    case (AddField name v vc mc)
    then show ?thesis using wf by (simp add: w wf_world_addField)
  next
    case (RemoveField name)
    then show ?thesis using wf by (simp add: w wf_world_removeField)
  next
    case (UpdateFieldOffsetY name y)
    then show ?thesis
      using wf s other_cells(3) [of name y b h] store_updateFieldOffsetY [of name y b h]
      by (auto simp add: w intro!: wf_world_same_objects [OF wf])
  next
    case (ValidateField name e)
    then show ?thesis
      using wf s validateField_cell [of b h name e] store_validateField [of b h name e]
      by (auto simp add: w intro!: wf_world_same_objects [OF wf])
  next
    case (ValidateForm e)
    then show ?thesis
      using wf s validateForm_cell [of e b h] store_validateForm [of e b h]
      by (auto simp add: w intro!: wf_world_same_objects [OF wf] split: if_splits)
  next
    case ResetValidations
    then show ?thesis
      using wf s other_cells(4) [of b h] store_resetValidations [of b h]
      by (auto simp add: w intro!: wf_world_same_objects [OF wf])
  next
    case (Elapse d)
    then show ?thesis
      using wf s elapse_cell [of d b h] store_elapse [of d b h]
      by (auto simp add: w intro!: wf_world_same_objects [OF wf])
  qed
qed

lemma shares_removeField:
  assumes "wf_world (b, h)" and "shares (b, h)"
  shows "shares (removeField name (b, h))"
proof -
  let ?tb = "fieldsRef (stateBufferRef b)"
  let ?tc = "fieldsRef (state b)"
  let ?ts = "(tables h)[?tb := AList.delete name (tables h ! ?tb)]"
  have tb: "?tb < length (tables h)" using assms(1) by (simp add: wf_world_iff)
  have buf: "map_of (?ts ! ?tb) n = (if n = name then None else map_of (tables h ! ?tb) n)" for n
    using tb by (simp add: delete_conv')
  have "map_of (?ts ! ?tb) n = Some a \<or> map_of (?ts ! ?tb) n = None"
    if c: "map_of (?ts ! ?tc) n = Some a" for n a
  proof (cases "?tc = ?tb")
    case True
    with c show ?thesis by simp
  next
    case False
    then have "map_of (tables h ! ?tc) n = Some a" using c by simp
    then have "map_of (tables h ! ?tb) n = Some a \<or> map_of (tables h ! ?tb) n = None"
      using assms(2) by (simp add: shares_def getField_def)
    then show ?thesis by (auto simp add: buf)
  qed
  then show ?thesis
    unfolding removeField_eq shares_def getField_def by simp
qed

lemma shares_addField:
  assumes "wf_world (b, h)" and "shares (b, h)"
  shows "shares (addField name v vc mc (b, h))"
proof (cases "getProperty h (fieldsRef (state b)) name = Absent")
  case False
  then show ?thesis
    using assms(2) by (simp add: addField_refused shares_def getField_def)
next
  case True
  then have None: "getField h (fieldsRef (state b)) name = None"
    by (simp add: getProperty_def split: option.splits)
  let ?tb = "fieldsRef (stateBufferRef b)"
  let ?tc = "fieldsRef (state b)"
  let ?new = "AList.update name (length (records h)) (tables h ! ?tb)"
  have tc: "?tc < length (tables h)" using assms(1) by (simp add: wf_world_iff)
  have "map_of ?new n = Some a \<or> map_of ?new n = None"
    if c: "map_of (tables h ! ?tc) n = Some a" for n a
  proof -
    from c None have "n \<noteq> name" by (auto simp add: getField_def)
    then have "map_of ?new n = map_of (tables h ! ?tb) n" by (simp add: update_conv')
    then show ?thesis using assms(2) c by (simp add: shares_def getField_def)
  qed
  then show ?thesis
    unfolding addField_new_eq [OF True] shares_def getField_def using tc by (simp add: nth_append)
qed

lemma shares_step:
  assumes "wf_world w" and "shares w"
  shows "shares (step w ev)"
proof -
  obtain b h where w: "w = (b, h)" by (cases w)
  obtain b' h' where s: "step w ev = (b', h')" by (cases "step w ev")
  note wf = assms(1) [unfolded w] and sh = assms(2) [unfolded w]
  show ?thesis
  proof (cases ev)
    case ReadyEffect
    then show ?thesis
      using s other_cells(1) [of b h] store_readyEffect [of b h]
      by (auto simp add: w intro!: shares_same_tables [OF sh])
  next
    case (AddField name v vc mc)
    then show ?thesis using wf sh by (simp add: w shares_addField)
  next
    case (RemoveField name)
    then show ?thesis using wf sh by (simp add: w shares_removeField)
  next
    case (UpdateFieldOffsetY name y)
    then show ?thesis
      using s other_cells(3) [of name y b h] store_updateFieldOffsetY [of name y b h]
      by (auto simp add: w intro!: shares_same_tables [OF sh])
  next
    case (ValidateField name e)
    then show ?thesis
      using s validateField_cell [of b h name e] store_validateField [of b h name e]
      by (auto simp add: w intro!: shares_same_tables [OF sh])
  next
    case (ValidateForm e)
    then show ?thesis
      using s validateForm_cell [of e b h] store_validateForm [of e b h]
      by (auto simp add: w intro!: shares_same_tables [OF sh] split: if_splits)
  next
    case ResetValidations
    then show ?thesis
      using s other_cells(4) [of b h] store_resetValidations [of b h]
      by (auto simp add: w intro!: shares_same_tables [OF sh])
  next
    case (Elapse d)
    then show ?thesis
      using s elapse_cell [of d b h] store_elapse [of d b h]
      by (auto simp add: w intro!: shares_same_tables [OF sh])
  qed
qed

lemma reachable_wf_shares:
  "wf_world (run evs ValidatedForm) \<and> shares (run evs ValidatedForm)"
proof (induction evs rule: rev_induct)
  case Nil
  show ?case
    by (simp add: run_def ValidatedForm_def useBufferedState_def DEFAULT_VALIDATOR_STATE_def
          wf_world_def shares_def getField_def)
next
  case (snoc ev evs)
  then show ?case
    by (simp add: run_def wf_world_step shares_step)
qed

subsection \<open>Validating one field\<close>

lemma shares_buffer:
  assumes "shares (b, h)" and "getField h (fieldsRef (state b)) name = Some a"
  shows "getField h (fieldsRef (stateBufferRef b)) name = Some a \<or>
         getField h (fieldsRef (stateBufferRef b)) name = None"
  using assms by (simp add: shares_def)

text \<open>
  C6, as the code has it, in a well-formed world whose tables share their records, as
  every reachable world is. \<open>validateField\<close> looks the name up in
  \<open>validatorState.fields\<close>. For a name that is neither there nor in \<open>Object.prototype\<close>
  it logs and changes nothing else. For a field whose callback returns the stored flag it
  changes nothing, so it makes no write. For a field whose callback returns the other
  value it makes one write; if the buffered state still has the field, its record gets the
  new flag and nothing else changes; if the field has been removed from the buffered state
  since the last commit, the write changes no record.
\<close>

theorem validateField_cases:
  assumes "wf_world (b, h)" and "shares (b, h)"
  shows "(getProperty h (fieldsRef (state b)) name = Absent \<longrightarrow>
            validateField name e (b, h) =
              Inr (b, h\<lparr>effects := effects h @ [ConsoleLog ''Trying to validate non-existing field!'']\<rparr>)) \<and>
         (\<forall>a. getField h (fieldsRef (state b)) name = Some a \<and>
              valid (records h ! a) = validateCallback (records h ! a) e \<longrightarrow>
            validateField name e (b, h) = Inr (b, h)) \<and>
         (\<forall>a. getField h (fieldsRef (state b)) name = Some a \<and>
              valid (records h ! a) \<noteq> validateCallback (records h ! a) e \<longrightarrow>
            (getField h (fieldsRef (stateBufferRef b)) name = Some a \<longrightarrow>
               validateField name e (b, h) =
                 Inr (b\<lparr>commitTimeoutRef := Some 50, writes := Suc (writes b)\<rparr>,
                      h\<lparr>records := (records h)[a := (records h ! a)\<lparr>valid := validateCallback (records h ! a) e\<rparr>]\<rparr>) \<and>
               getRecord (h\<lparr>records := (records h)[a := (records h ! a)\<lparr>valid := validateCallback (records h ! a) e\<rparr>]\<rparr>)
                   (fieldsRef (stateBufferRef b)) name
                 = Some ((records h ! a)\<lparr>valid := validateCallback (records h ! a) e\<rparr>)) \<and>
            (getField h (fieldsRef (stateBufferRef b)) name \<noteq> Some a \<longrightarrow>
               getField h (fieldsRef (stateBufferRef b)) name = None \<and>
               validateField name e (b, h) =
                 Inr (b\<lparr>commitTimeoutRef := Some 50, writes := Suc (writes b)\<rparr>, h)))"
proof -
  let ?tc = "fieldsRef (state b)"
  let ?tb = "fieldsRef (stateBufferRef b)"
  have unknown: "validateField name e (b, h) =
              Inr (b, h\<lparr>effects := effects h @ [ConsoleLog ''Trying to validate non-existing field!'']\<rparr>)"
    if "getProperty h ?tc name = Absent"
    using that by (simp add: validateField_def)
  have same: "validateField name e (b, h) = Inr (b, h)"
    if "getField h ?tc name = Some a \<and> valid (records h ! a) = validateCallback (records h ! a) e" for a
    using that by (simp add: validateField_def getProperty_def)
  have kept: "validateField name e (b, h) =
                 Inr (b\<lparr>commitTimeoutRef := Some 50, writes := Suc (writes b)\<rparr>,
                      h\<lparr>records := (records h)[a := (records h ! a)\<lparr>valid := validateCallback (records h ! a) e\<rparr>]\<rparr>) \<and>
               getRecord (h\<lparr>records := (records h)[a := (records h ! a)\<lparr>valid := validateCallback (records h ! a) e\<rparr>]\<rparr>)
                   ?tb name
                 = Some ((records h ! a)\<lparr>valid := validateCallback (records h ! a) e\<rparr>)"
    if p: "getField h ?tc name = Some a \<and> valid (records h ! a) \<noteq> validateCallback (records h ! a) e"
      and q: "getField h ?tb name = Some a" for a
  proof -
    have eq: "validateField name e (b, h) =
                 Inr (b\<lparr>commitTimeoutRef := Some 50, writes := Suc (writes b)\<rparr>,
                      h\<lparr>records := (records h)[a := (records h ! a)\<lparr>valid := validateCallback (records h ! a) e\<rparr>]\<rparr>)"
      using p q by (simp add: validateField_def getProperty_def setValidatorState_Updater Let_def)
    have "a < length (records h)"
      using wf_world_getField [OF assms(1) wf_world_fieldsRef(1) [OF assms(1)]] p by blast
    then have "getRecord (h\<lparr>records := (records h)[a := (records h ! a)\<lparr>valid := validateCallback (records h ! a) e\<rparr>]\<rparr>)
                   ?tb name
                 = Some ((records h ! a)\<lparr>valid := validateCallback (records h ! a) e\<rparr>)"
      using q by (simp add: getRecord_def getField_def)
    with eq show ?thesis by blast
  qed
  have removed: "getField h ?tb name = None \<and>
               validateField name e (b, h) =
                 Inr (b\<lparr>commitTimeoutRef := Some 50, writes := Suc (writes b)\<rparr>, h)"
    if p: "getField h ?tc name = Some a \<and> valid (records h ! a) \<noteq> validateCallback (records h ! a) e"
      and q: "getField h ?tb name \<noteq> Some a" for a
  proof -
    have n: "getField h ?tb name = None"
      using shares_buffer [OF assms(2)] p q by blast
    then have "validateField name e (b, h) =
                 Inr (b\<lparr>commitTimeoutRef := Some 50, writes := Suc (writes b)\<rparr>, h)"
      using p by (simp add: validateField_def getProperty_def setValidatorState_Updater Let_def)
    with n show ?thesis by blast
  qed
  from unknown same kept removed show ?thesis by blast
qed

lemma examplePendingForm_eq:
  "examplePendingForm =
     (\<lparr>state = \<lparr>ready = True, fieldsRef = 2\<rparr>, stateBufferRef = \<lparr>ready = True, fieldsRef = 3\<rparr>,
       commitTimeoutRef = Some 50, writes = 5\<rparr>,
      \<lparr>records = [\<lparr>valid = True, yOffset = 0, measureYOffset = \<lambda>e. 0, validateCallback = \<lambda>e. 0 < e\<rparr>,
                  \<lparr>valid = True, yOffset = 0, measureYOffset = \<lambda>e. 0, validateCallback = \<lambda>e. e < 10\<rparr>,
                  \<lparr>valid = True, yOffset = 0, measureYOffset = \<lambda>e. 0, validateCallback = \<lambda>e. True\<rparr>],
       tables = [[], [(''name'', 0)], [(''name'', 0), (''email'', 1)], [(''name'', 0), (''phone'', 2)]],
       effects = []\<rparr>)"
  unfolding examplePendingForm_def exampleForm_eq
  by (simp add: form_defs AList.delete_eq numeral_2_eq_2 numeral_3_eq_3 eval_nat_numeral)

lemma example_forms_reachable:
  "wf_world exampleForm" "shares exampleForm" "wf_world examplePendingForm" "shares examplePendingForm"
  unfolding examplePendingForm_def exampleForm_def run_append [symmetric]
  by (simp_all only: reachable_wf_shares)

theorem validateField_cases_witness:
  "wf_world exampleForm \<and> shares exampleForm \<and> wf_world examplePendingForm \<and> shares examplePendingForm \<and>
   validateField ''phone'' 5 exampleForm =
     Inr (fst exampleForm, (snd exampleForm)\<lparr>effects := [ConsoleLog ''Trying to validate non-existing field!'']\<rparr>) \<and>
   validateField ''email'' 5 exampleForm = Inr exampleForm \<and>
   map_option valid (getRecord (snd exampleForm) (fieldsRef (stateBufferRef (fst exampleForm))) ''email'')
     = Some True \<and>
   map_option valid (getRecord (snd (caught exampleForm (validateField ''email'' 12 exampleForm)))
       (fieldsRef (stateBufferRef (fst exampleForm))) ''email'') = Some False \<and>
   writes (fst (caught exampleForm (validateField ''email'' 12 exampleForm))) = Suc (writes (fst exampleForm)) \<and>
   validateField ''email'' 12 examplePendingForm =
     Inr ((fst examplePendingForm)\<lparr>commitTimeoutRef := Some 50, writes := Suc (writes (fst examplePendingForm))\<rparr>,
          snd examplePendingForm)"
proof -
  have wf: "wf_world (fst exampleForm, snd exampleForm)" and sh: "shares (fst exampleForm, snd exampleForm)"
    and wfp: "wf_world (fst examplePendingForm, snd examplePendingForm)"
    and shp: "shares (fst examplePendingForm, snd examplePendingForm)"
    using example_forms_reachable by simp_all
  note c = validateField_cases [OF wf sh]
  note cp = validateField_cases [OF wfp shp]
  have absent: "getProperty (snd exampleForm) (fieldsRef (state (fst exampleForm))) ''phone'' = Absent"
    and some: "getField (snd exampleForm) (fieldsRef (state (fst exampleForm))) ''email'' = Some 1"
              "getField (snd exampleForm) (fieldsRef (stateBufferRef (fst exampleForm))) ''email'' = Some 1"
    and v: "valid (records (snd exampleForm) ! 1)"
    and cb: "validateCallback (records (snd exampleForm) ! 1) 5" "\<not> validateCallback (records (snd exampleForm) ! 1) 12"
    and ef: "effects (snd exampleForm) = []"
    by (simp_all add: exampleForm_eq getField_def getProperty_def Object_prototype_def)
  have psome: "getField (snd examplePendingForm) (fieldsRef (state (fst examplePendingForm))) ''email'' = Some 1"
    and pnone: "getField (snd examplePendingForm) (fieldsRef (stateBufferRef (fst examplePendingForm))) ''email'' \<noteq> Some 1"
    and pv: "valid (records (snd examplePendingForm) ! 1)"
    and pcb: "\<not> validateCallback (records (snd examplePendingForm) ! 1) 12"
    by (simp_all add: examplePendingForm_eq getField_def)
  have 1: "validateField ''phone'' 5 (fst exampleForm, snd exampleForm) =
             Inr (fst exampleForm, (snd exampleForm)\<lparr>effects := effects (snd exampleForm) @
                 [ConsoleLog ''Trying to validate non-existing field!'']\<rparr>)"
    using c [of "''phone''" 5] absent by blast
  have 2: "validateField ''email'' 5 (fst exampleForm, snd exampleForm) = Inr (fst exampleForm, snd exampleForm)"
    using c [of "''email''" 5] some v cb by blast
  have 3: "validateField ''email'' 12 (fst exampleForm, snd exampleForm) =
              Inr ((fst exampleForm)\<lparr>commitTimeoutRef := Some 50, writes := Suc (writes (fst exampleForm))\<rparr>,
               (snd exampleForm)\<lparr>records := (records (snd exampleForm))[1 :=
                  (records (snd exampleForm) ! 1)\<lparr>valid := validateCallback (records (snd exampleForm) ! 1) 12\<rparr>]\<rparr>)"
      and 4: "getRecord ((snd exampleForm)\<lparr>records := (records (snd exampleForm))[1 :=
                  (records (snd exampleForm) ! 1)\<lparr>valid := validateCallback (records (snd exampleForm) ! 1) 12\<rparr>]\<rparr>)
                (fieldsRef (stateBufferRef (fst exampleForm))) ''email''
               = Some ((records (snd exampleForm) ! 1)\<lparr>valid := validateCallback (records (snd exampleForm) ! 1) 12\<rparr>)"
    using c [of "''email''" 12] some v cb by blast+
  have 5: "validateField ''email'' 12 (fst examplePendingForm, snd examplePendingForm) =
     Inr ((fst examplePendingForm)\<lparr>commitTimeoutRef := Some 50, writes := Suc (writes (fst examplePendingForm))\<rparr>,
          snd examplePendingForm)"
    using cp [of "''email''" 12] psome pnone pv pcb by blast
  have before: "map_option valid (getRecord (snd exampleForm) (fieldsRef (stateBufferRef (fst exampleForm))) ''email'')
     = Some True"
    by (simp add: exampleForm_eq getRecord_def getField_def)
  have after: "map_option valid (getRecord (snd (caught exampleForm (validateField ''email'' 12 exampleForm)))
       (fieldsRef (stateBufferRef (fst exampleForm))) ''email'') = Some False"
    using 3 4 cb by (simp add: caught_def)
  have w: "writes (fst (caught exampleForm (validateField ''email'' 12 exampleForm))) = Suc (writes (fst exampleForm))"
    using 3 by (simp add: caught_def)
  from example_forms_reachable 1 2 5 before after w ef show ?thesis by simp
qed

text \<open>
  C6 as stated fails for a field whose removal is pending: \<open>email\<close> is in
  \<open>validatorState.fields\<close> with the flag \<open>true\<close>, its callback returns \<open>false\<close>, and
  \<open>validateField\<close> makes a write that leaves the flag and every other object as they
  were.
\<close>

theorem validateField_pending_removal_counterexample:
  "map_option valid
     (getRecord (snd examplePendingForm) (fieldsRef (state (fst examplePendingForm))) ''email'') = Some True \<and>
   map_option (\<lambda>r. validateCallback r 12)
     (getRecord (snd examplePendingForm) (fieldsRef (state (fst examplePendingForm))) ''email'') = Some False \<and>
   validateField ''email'' 12 examplePendingForm =
     Inr ((fst examplePendingForm)\<lparr>commitTimeoutRef := Some 50, writes := Suc (writes (fst examplePendingForm))\<rparr>,
          snd examplePendingForm)"
  unfolding examplePendingForm_eq
  by (simp add: form_defs validateField_def)

text \<open>
  A name that only \<open>Object.prototype\<close> has is not a field, and \<open>validateField\<close> throws
  for it where it would log for any other unknown name.
\<close>

lemma validateField_inherited_name:
  "validateField ''toString'' e (ValidatedForm :: 'e World) = Inl TypeError"
  by (simp add: validateField_def form_defs)

end
